theory Spec2Isabelle
  imports Main "HOL-Library.Multiset"
begin

section \<open>Errors and configuration\<close>

text \<open>
  The Python exceptions the modelled code can raise. The assertion of
  \<open>ArrayDataset.__init__\<close> raises \<open>AssertionError\<close>, indexing raises \<open>IndexError\<close>,
  the end of an epoch is signalled by \<open>StopIteration\<close>, and \<open>//\<close> by zero raises
  \<open>ZeroDivisionError\<close>.
\<close>

datatype error = AssertionError | IndexError | StopIteration | ZeroDivisionError

text \<open>
  \<^verbatim>\<open>
  @dataclass
  class Config:
      rng_reserve_size: int
      global_seed: int

      @classmethod
      def default(cls) -> Config:
          return cls(rng_reserve_size=1, global_seed=42)
  \<close>
  The module keeps one \<open>main_config = Config.default()\<close>, read through
  \<open>get_config()\<close>. The model passes that configuration explicitly.
\<close>

record Config =
  rng_reserve_size :: int
  global_seed :: int

definition Config_default :: Config where
  "Config_default = \<lparr>rng_reserve_size = 1, global_seed = 42\<rparr>"

section \<open>The functions of \<open>jax.random\<close> the code calls\<close>

text \<open>
  \<open>jax.random.PRNGKey\<close>, \<open>jax.random.split\<close> and \<open>jax.random.permutation\<close> belong to
  JAX, not to this repository. They are parameters of the model, collected in one record
  over an arbitrary type of keys:
  \<^item> \<open>random_PRNGKey seed\<close> is the key made from a seed;
  \<^item> \<open>random_split key num i\<close> is the \<open>i\<close>-th of the \<open>num\<close> keys that
    \<open>jax.random.split(key, num)\<close> returns;
  \<^item> \<open>random_permutation key xs\<close> is \<open>jax.random.permutation(key, xs)\<close>.
\<close>

record 'k jax_random =
  random_PRNGKey :: "int \<Rightarrow> 'k"
  random_split :: "'k \<Rightarrow> nat \<Rightarrow> nat \<Rightarrow> 'k"
  random_permutation :: "'k \<Rightarrow> int list \<Rightarrow> int list"

definition jax_random_split :: "'k jax_random \<Rightarrow> 'k \<Rightarrow> nat \<Rightarrow> 'k list" where
  "jax_random_split J k num = map (random_split J k num) [0..<num]"

text \<open>
  What the documentation of \<open>jax.random.permutation\<close> promises and the theorems about
  shuffled epochs assume: the result is a rearrangement of the argument.
\<close>

definition permutation_ok :: "'k jax_random \<Rightarrow> bool" where
  "permutation_ok J \<longleftrightarrow> (\<forall>k xs. mset (random_permutation J k xs) = mset xs)"

section \<open>PRNGSequence\<close>

text \<open>
  \<^verbatim>\<open>
  class PRNGSequence(Iterator[PRNGKey]):
      def __init__(self, seed: int):
          self._key = jax.random.PRNGKey(seed)
          self._subkeys = collections.deque()

      def reserve(self, num):
          if num > 0:
              new_keys = tuple(jax.random.split(self._key, num + 1))
              self._key = new_keys[0]
              self._subkeys.extend(new_keys[1:])

      def __next__(self):
          if not self._subkeys:
              self.reserve(get_config().rng_reserve_size)
          return self._subkeys.popleft()
  \<close>
  The fields \<open>_key\<close> and \<open>_subkeys\<close> are \<open>key\<close> and \<open>subkeys\<close>; the deque is a list
  whose head is its left end. \<open>popleft\<close> of an empty deque raises \<open>IndexError\<close>.
\<close>

record 'k PRNGSequence =
  key :: 'k
  subkeys :: "'k list"

definition PRNGSequence_init :: "'k jax_random \<Rightarrow> int \<Rightarrow> 'k PRNGSequence" where
  "PRNGSequence_init J seed = \<lparr>key = random_PRNGKey J seed, subkeys = []\<rparr>"

definition PRNGSequence_reserve ::
  "'k jax_random \<Rightarrow> 'k PRNGSequence \<Rightarrow> int \<Rightarrow> 'k PRNGSequence" where
  "PRNGSequence_reserve J s num =
     (if num > 0 then
        (let new_keys = jax_random_split J (key s) (nat (num + 1))
         in s\<lparr>key := new_keys ! 0, subkeys := subkeys s @ drop 1 new_keys\<rparr>)
      else s)"

definition PRNGSequence_next ::
  "'k jax_random \<Rightarrow> Config \<Rightarrow> 'k PRNGSequence \<Rightarrow> error + ('k \<times> 'k PRNGSequence)" where
  "PRNGSequence_next J cfg s =
     (let s1 = (if subkeys s = [] then PRNGSequence_reserve J s (rng_reserve_size cfg) else s)
      in case subkeys s1 of
           [] \<Rightarrow> Inl IndexError
         | k # ks \<Rightarrow> Inr (k, s1\<lparr>subkeys := ks\<rparr>))"

text \<open>A sequence of calls on one \<open>PRNGSequence\<close>, and what each call returns.\<close>

datatype call = Reserve int | Next

fun PRNGSequence_run ::
  "'k jax_random \<Rightarrow> Config \<Rightarrow> 'k PRNGSequence \<Rightarrow> call list \<Rightarrow> (error + 'k) list" where
  "PRNGSequence_run J cfg s [] = []"
| "PRNGSequence_run J cfg s (Reserve num # cs) =
     PRNGSequence_run J cfg (PRNGSequence_reserve J s num) cs"
| "PRNGSequence_run J cfg s (Next # cs) =
     (case PRNGSequence_next J cfg s of
        Inl e \<Rightarrow> Inl e # PRNGSequence_run J cfg s cs
      | Inr (k, s') \<Rightarrow> Inr k # PRNGSequence_run J cfg s' cs)"

section \<open>ArrayDataset\<close>

text \<open>
  \<^verbatim>\<open>
  class ArrayDataset(Dataset):
      def __init__(self, *arrays):
          assert all(arrays[0].shape[0] == arr.shape[0] for arr in arrays), \
              "All arrays must have the same dimension."
          self.arrays = arrays

      def __len__(self):
          return self.arrays[0].shape[0]

      def __getitem__(self, index):
          return tuple(arr[index] for arr in self.arrays)
  \<close>
  An array is the list of its entries along the first axis, so \<open>arr.shape[0]\<close> is
  \<open>length arr\<close>. With no array at all the generator of the assertion is empty and the
  assertion passes; \<open>__len__\<close> then fails on \<open>self.arrays[0]\<close>.
\<close>

record 'a ArrayDataset =
  arrays :: "'a list list"

definition ArrayDataset_init :: "'a list list \<Rightarrow> error + 'a ArrayDataset" where
  "ArrayDataset_init arrs =
     (if list_all (\<lambda>arr. length (arrs ! 0) = length arr) arrs
      then Inr \<lparr>arrays = arrs\<rparr> else Inl AssertionError)"

definition ArrayDataset_len :: "'a ArrayDataset \<Rightarrow> error + nat" where
  "ArrayDataset_len ds =
     (case arrays ds of [] \<Rightarrow> Inl IndexError | arr # _ \<Rightarrow> Inr (length arr))"


definition ndarray_getitem :: "'a list \<Rightarrow> int \<Rightarrow> error + 'a" where
  "ndarray_getitem arr i =
     (let n = int (length arr)
      in if - n \<le> i \<and> i < n then Inr (arr ! nat (if i < 0 then i + n else i))
         else Inl IndexError)"



fun collect :: "(error + 'a) list \<Rightarrow> error + 'a list" where
  "collect [] = Inr []"
| "collect (x # xs) =
     (case x of
        Inl e \<Rightarrow> Inl e
      | Inr v \<Rightarrow> (case collect xs of Inl e \<Rightarrow> Inl e | Inr vs \<Rightarrow> Inr (v # vs)))"

definition ndarray_take :: "'a list \<Rightarrow> int list \<Rightarrow> error + 'a list" where
  "ndarray_take arr idxs = collect (map (ndarray_getitem arr) idxs)"


definition ArrayDataset_getitem_batch ::
  "'a ArrayDataset \<Rightarrow> int list \<Rightarrow> error + 'a list list" where
  "ArrayDataset_getitem_batch ds idxs = collect (map (\<lambda>arr. ndarray_take arr idxs) (arrays ds))"

text \<open>
  The property the specification words as "the supplied buffers share a common
  first-axis size", to be compared with the assertion of the constructor.
\<close>

definition share_first_axis_size :: "'a list list \<Rightarrow> bool" where
  "share_first_axis_size arrs \<longleftrightarrow>
     list_all (\<lambda>a. list_all (\<lambda>b. length a = length b) arrs) arrs"

section \<open>DataLoaderJax\<close>

text \<open>
  Python's \<open>xs[start:stop]\<close> and \<open>xs[start:]\<close>: a negative bound counts from the end,
  and both bounds are clamped to \<open>[0, len(xs)]\<close>.
\<close>

definition slice_bound :: "nat \<Rightarrow> int \<Rightarrow> nat" where
  "slice_bound n i = (if i < 0 then nat (max (i + int n) 0) else min (nat i) n)"

definition py_slice :: "'a list \<Rightarrow> int \<Rightarrow> int \<Rightarrow> 'a list" where
  "py_slice xs start stop =
     (let s = slice_bound (length xs) start; e = slice_bound (length xs) stop
      in take (e - s) (drop s xs))"

definition py_slice_from :: "'a list \<Rightarrow> int \<Rightarrow> 'a list" where
  "py_slice_from xs start = drop (slice_bound (length xs) start) xs"

definition arange :: "nat \<Rightarrow> int list" where
  "arange n = map int [0..<n]"

text \<open>
  \<^verbatim>\<open>
  class DataLoaderJax(BaseDataLoader):
      def __init__(self, dataset, batch_size: int = 1, shuffle: bool = False,
                   drop_last: bool = False, **kwargs):
          self.dataset = dataset
          self.batch_size = batch_size
          self.shuffle = shuffle
          self.drop_last = drop_last

          self.keys = PRNGSequence(seed=get_config().global_seed) \
              if hk is None else hk.PRNGSequence(get_config().global_seed)
          self.data_len = len(dataset)
          self.indices = jnp.arange(self.data_len)
          self.pose = 0
          self._shuffle()

      def _shuffle(self):
          if self.shuffle:
              self.indices = jax.random.permutation(next(self.keys), self.indices)

      def _stop_iteration(self):
          self.pose = 0
          self._shuffle()
          raise StopIteration

      def __len__(self):
          if self.drop_last:
              batches = len(self.dataset) // self.batch_size
          else:
              batches = -(len(self.dataset) // -self.batch_size)
          return batches

      def __next__(self):
          if self.pose + self.batch_size <= self.data_len:
              batch_indices = self.indices[self.pose: self.pose + self.batch_size]
              batch_data = self.dataset[batch_indices]
              self.pose += self.batch_size
              return batch_data
          elif self.pose < self.data_len and not self.drop_last:
              batch_indices = self.indices[self.pose:]
              batch_data = self.dataset[batch_indices]
              self.pose += self.batch_size
              return batch_data
          else:
              self._stop_iteration()
  \<close>
  The dataset is an \<open>ArrayDataset\<close>, the key sequence the \<open>PRNGSequence\<close> of this
  module (the branch \<open>hk is None\<close>). The keyword arguments \<open>**kwargs\<close> are a list of
  names and values, which the constructor never reads. \<open>batch_size\<close> is any integer,
  as in the source, so \<open>pose\<close> and the bounds of the slices are integers too.
  \<open>DataLoaderJax_len\<close> is the method \<open>__len__\<close>; both \<open>//\<close> of the source are floor
  divisions, as \<open>div\<close> on \<open>int\<close> is.
\<close>

record ('a, 'k) DataLoaderJax =
  dataset :: "'a ArrayDataset"
  batch_size :: int
  shuffle :: bool
  drop_last :: bool
  keys :: "'k PRNGSequence"
  data_len :: int
  indices :: "int list"
  pose :: int

definition DataLoaderJax_shuffle ::
  "'k jax_random \<Rightarrow> Config \<Rightarrow> ('a, 'k) DataLoaderJax \<Rightarrow> error + ('a, 'k) DataLoaderJax" where
  "DataLoaderJax_shuffle J cfg dl =
     (if shuffle dl then
        (case PRNGSequence_next J cfg (keys dl) of
           Inl e \<Rightarrow> Inl e
         | Inr (k, ks) \<Rightarrow> Inr (dl\<lparr>keys := ks, indices := random_permutation J k (indices dl)\<rparr>))
      else Inr dl)"

definition DataLoaderJax_init ::
  "'k jax_random \<Rightarrow> Config \<Rightarrow> 'a ArrayDataset \<Rightarrow> int \<Rightarrow> bool \<Rightarrow> bool \<Rightarrow> (string \<times> int) list
     \<Rightarrow> error + ('a, 'k) DataLoaderJax" where
  "DataLoaderJax_init J cfg ds bsize shuf dlast kwargs =
     (case ArrayDataset_len ds of
        Inl e \<Rightarrow> Inl e
      | Inr n \<Rightarrow>
          DataLoaderJax_shuffle J cfg
            \<lparr>dataset = ds, batch_size = bsize, shuffle = shuf, drop_last = dlast,
             keys = PRNGSequence_init J (global_seed cfg),
             data_len = int n, indices = arange n, pose = 0\<rparr>)"

text \<open>
  \<open>_stop_iteration\<close> always raises: \<open>StopIteration\<close>, or the error of \<open>_shuffle\<close>. The
  state it leaves behind is returned with the exception.
\<close>

definition DataLoaderJax_stop_iteration ::
  "'k jax_random \<Rightarrow> Config \<Rightarrow> ('a, 'k) DataLoaderJax \<Rightarrow> error \<times> ('a, 'k) DataLoaderJax" where
  "DataLoaderJax_stop_iteration J cfg dl =
     (let dl1 = dl\<lparr>pose := 0\<rparr>
      in case DataLoaderJax_shuffle J cfg dl1 of
           Inl e \<Rightarrow> (e, dl1)
         | Inr dl2 \<Rightarrow> (StopIteration, dl2))"

definition DataLoaderJax_len :: "('a, 'k) DataLoaderJax \<Rightarrow> error + int" where
  "DataLoaderJax_len dl =
     (case ArrayDataset_len (dataset dl) of
        Inl e \<Rightarrow> Inl e
      | Inr n \<Rightarrow>
          if batch_size dl = 0 then Inl ZeroDivisionError
          else if drop_last dl then Inr (int n div batch_size dl)
          else Inr (- (int n div - batch_size dl)))"

definition DataLoaderJax_next ::
  "'k jax_random \<Rightarrow> Config \<Rightarrow> ('a, 'k) DataLoaderJax
     \<Rightarrow> (error + 'a list list) \<times> ('a, 'k) DataLoaderJax" where
  "DataLoaderJax_next J cfg dl =
     (if pose dl + batch_size dl \<le> data_len dl then
        (let batch_indices = py_slice (indices dl) (pose dl) (pose dl + batch_size dl)
         in case ArrayDataset_getitem_batch (dataset dl) batch_indices of
              Inl e \<Rightarrow> (Inl e, dl)
            | Inr batch_data \<Rightarrow> (Inr batch_data, dl\<lparr>pose := pose dl + batch_size dl\<rparr>))
      else if pose dl < data_len dl \<and> \<not> drop_last dl then
        (let batch_indices = py_slice_from (indices dl) (pose dl)
         in case ArrayDataset_getitem_batch (dataset dl) batch_indices of
              Inl e \<Rightarrow> (Inl e, dl)
            | Inr batch_data \<Rightarrow> (Inr batch_data, dl\<lparr>pose := pose dl + batch_size dl\<rparr>))
      else
        (case DataLoaderJax_stop_iteration J cfg dl of (e, dl') \<Rightarrow> (Inl e, dl')))"

text \<open>The state after \<open>n\<close> calls of \<open>__next__\<close>, whatever they return or raise.\<close>

fun DataLoaderJax_calls ::
  "'k jax_random \<Rightarrow> Config \<Rightarrow> nat \<Rightarrow> ('a, 'k) DataLoaderJax \<Rightarrow> ('a, 'k) DataLoaderJax" where
  "DataLoaderJax_calls J cfg 0 dl = dl"
| "DataLoaderJax_calls J cfg (Suc n) dl =
     DataLoaderJax_calls J cfg n (snd (DataLoaderJax_next J cfg dl))"

text \<open>
  One epoch is the loop \<open>for batch in dl\<close>: \<open>__next__\<close> is called until it raises. The
  loop is bounded by fuel, because with a batch size that is not positive it never
  ends; \<open>None\<close> is "still running when the fuel ran out". A finished epoch gives the
  batches it yielded, the exception that ended it (\<open>StopIteration\<close> for a normal end)
  and the state left behind.
\<close>

fun DataLoaderJax_epoch ::
  "'k jax_random \<Rightarrow> Config \<Rightarrow> nat \<Rightarrow> ('a, 'k) DataLoaderJax
     \<Rightarrow> ('a list list list \<times> error \<times> ('a, 'k) DataLoaderJax) option" where
  "DataLoaderJax_epoch J cfg 0 dl = None"
| "DataLoaderJax_epoch J cfg (Suc fuel) dl =
     (case DataLoaderJax_next J cfg dl of
        (Inl e, dl') \<Rightarrow> Some ([], e, dl')
      | (Inr batch_data, dl') \<Rightarrow>
          (case DataLoaderJax_epoch J cfg fuel dl' of
             None \<Rightarrow> None
           | Some (batches, e, dl'') \<Rightarrow> Some (batch_data # batches, e, dl'')))"

text \<open>
  The state at the start of epoch \<open>k\<close> (counted from 0) of a loader: \<open>k\<close> epochs have
  run, each ended by \<open>StopIteration\<close>.
\<close>

fun DataLoaderJax_after_epochs ::
  "'k jax_random \<Rightarrow> Config \<Rightarrow> nat \<Rightarrow> nat \<Rightarrow> ('a, 'k) DataLoaderJax
     \<Rightarrow> ('a, 'k) DataLoaderJax option" where
  "DataLoaderJax_after_epochs J cfg fuel 0 dl = Some dl"
| "DataLoaderJax_after_epochs J cfg fuel (Suc k) dl =
     (case DataLoaderJax_epoch J cfg fuel dl of
        Some (batches, StopIteration, dl') \<Rightarrow> DataLoaderJax_after_epochs J cfg fuel k dl'
      | _ \<Rightarrow> None)"

text \<open>
  The batches of an epoch are concatenated column by column, as the tests of the
  repository do with \<open>jnp.concatenate\<close>.
\<close>

definition concatenate_batches :: "nat \<Rightarrow> 'a list list list \<Rightarrow> 'a list list" where
  "concatenate_batches ncols batches =
     map (\<lambda>c. concat (map (\<lambda>b. b ! c) batches)) [0..<ncols]"

text \<open>
  A list of indices is a bijection on \<open>[0, n)\<close>: it has \<open>n\<close> entries, no entry twice,
  and its entries are the numbers of \<open>[0, n)\<close>.
\<close>

definition bijection_on_range :: "nat \<Rightarrow> int list \<Rightarrow> bool" where
  "bijection_on_range n xs \<longleftrightarrow> length xs = n \<and> distinct xs \<and> set xs = {0..<int n}"

text \<open>
  Two notions used in the proofs about epochs. \<open>gathered ds idxs\<close> is the batch that
  \<open>ds[idxs]\<close> returns when every index is in range. \<open>loader_ok cfg N b dl\<close> collects what
  holds of a loader over a dataset of \<open>N\<close> samples with batch size \<open>b > 0\<close> between two
  calls: every array has \<open>N\<close> entries, \<open>indices\<close> is a rearrangement of \<open>arange(N)\<close> (and
  is \<open>arange(N)\<close> itself without shuffling), and a shuffling loader can draw keys.
\<close>

definition gathered :: "'a ArrayDataset \<Rightarrow> int list \<Rightarrow> 'a list list" where
  "gathered ds idxs = map (\<lambda>arr. map (\<lambda>i. arr ! nat i) idxs) (arrays ds)"

definition loader_ok :: "Config \<Rightarrow> nat \<Rightarrow> nat \<Rightarrow> ('a, 'k) DataLoaderJax \<Rightarrow> bool" where
  "loader_ok cfg N b dl \<longleftrightarrow>
     arrays (dataset dl) \<noteq> [] \<and> (\<forall>arr\<in>set (arrays (dataset dl)). length arr = N) \<and>
     data_len dl = int N \<and> batch_size dl = int b \<and> 0 < b \<and>
     mset (indices dl) = mset (arange N) \<and>
     (shuffle dl \<longrightarrow> 1 \<le> rng_reserve_size cfg) \<and>
     (\<not> shuffle dl \<longrightarrow> indices dl = arange N)"

text \<open>
  A small instance of the functions of \<open>jax.random\<close>, over integer keys, on which the
  model can be run: the key of a seed is the seed, the subkeys of a key are numbered,
  and a permutation reverses its argument. It stands in for JAX in the examples only.
\<close>

definition example_random :: "int jax_random" where
  "example_random =
     \<lparr>random_PRNGKey = (\<lambda>seed. seed),
      random_split = (\<lambda>k num i. 100 * k + 10 * int num + int i),
      random_permutation = (\<lambda>k xs. rev xs)\<rparr>"

section \<open>Construction of an ArrayDataset\<close>

lemma share_first_axis_size_iff:
  "share_first_axis_size arrs \<longleftrightarrow> list_all (\<lambda>arr. length (arrs ! 0) = length arr) arrs"
proof (cases arrs)
  case Nil
  then show ?thesis by (simp add: share_first_axis_size_def)
next
  case (Cons a rest)
  then have a: "arrs ! 0 = a" "a \<in> set arrs" by simp_all
  show ?thesis
  proof
    assume "share_first_axis_size arrs"
    then have "\<forall>x\<in>set arrs. \<forall>y\<in>set arrs. length x = length y"
      by (simp only: share_first_axis_size_def list_all_iff)
    with a(2) have "\<forall>y\<in>set arrs. length a = length y" by blast
    then show "list_all (\<lambda>arr. length (arrs ! 0) = length arr) arrs"
      by (simp only: list_all_iff a(1))
  next
    assume "list_all (\<lambda>arr. length (arrs ! 0) = length arr) arrs"
    then have "\<forall>y\<in>set arrs. length a = length y"
      by (simp only: list_all_iff a(1))
    then have "\<forall>x\<in>set arrs. \<forall>y\<in>set arrs. length x = length y"
      by metis
    then show "share_first_axis_size arrs"
      by (simp only: share_first_axis_size_def list_all_iff)
  qed
qed

text \<open>
  Claim C7. The construction of an \<open>ArrayDataset\<close> fails, with the \<open>AssertionError\<close> of
  its assertion (the specification's \<open>ShapeMismatch\<close>), exactly when the supplied arrays
  do not all share the same first-axis size, and succeeds, keeping the arrays, when
  they do. Two arrays of sizes 5 and 6 are refused.
\<close>

theorem ArrayDataset_init_ShapeMismatch:
  "ArrayDataset_init arrs =
     (if share_first_axis_size arrs then Inr \<lparr>arrays = arrs\<rparr> else Inl AssertionError)"
  by (simp only: ArrayDataset_init_def share_first_axis_size_iff)

theorem ArrayDataset_init_ShapeMismatch_witness:
  "ArrayDataset_init [[1, 2, 3, 4, 5 :: int], [1, 2, 3, 4, 5, 6]] = Inl AssertionError \<and>
   ArrayDataset_init [[1, 2, 3 :: int], [4, 5, 6]] = Inr \<lparr>arrays = [[1, 2, 3], [4, 5, 6]]\<rparr>"
  using ArrayDataset_init_ShapeMismatch [of "[[1, 2, 3, 4, 5 :: int], [1, 2, 3, 4, 5, 6]]"]
    ArrayDataset_init_ShapeMismatch [of "[[1, 2, 3 :: int], [4, 5, 6]]"]
  by (simp add: share_first_axis_size_def)

section \<open>Indexing an ArrayDataset\<close>

lemma collect_map_Inr:
  "(\<And>x. x \<in> set xs \<Longrightarrow> f x = Inr (g x)) \<Longrightarrow> collect (map f xs) = Inr (map g xs)"
  by (induction xs) auto


lemma ArrayDataset_init_Inr:
  assumes "ArrayDataset_init arrs = Inr ds"
  shows "arrays ds = arrs" and "ArrayDataset_len ds = Inr N \<Longrightarrow> arr \<in> set arrs \<Longrightarrow> length arr = N"
    and "ArrayDataset_len ds = Inr N \<Longrightarrow> arrs \<noteq> []"
proof -
  from assms have ok: "list_all (\<lambda>arr. length (arrs ! 0) = length arr) arrs" and ds: "ds = \<lparr>arrays = arrs\<rparr>"
    by (auto simp: ArrayDataset_init_def split: if_splits)
  show "arrays ds = arrs" using ds by simp
  show "arrs \<noteq> []" if "ArrayDataset_len ds = Inr N"
    using that ds by (auto simp: ArrayDataset_len_def)
  show "length arr = N" if "ArrayDataset_len ds = Inr N" "arr \<in> set arrs"
  proof -
    from that(1) ds obtain a rest where "arrs = a # rest" "length a = N"
      by (auto simp: ArrayDataset_len_def split: list.splits)
    with ok that(2) show ?thesis by (auto simp: list_all_iff)
  qed
qed









section \<open>The key sequence\<close>

lemma length_jax_random_split: "length (jax_random_split J k num) = num"
  by (simp add: jax_random_split_def)

lemma subkeys_PRNGSequence_reserve:
  "0 < num \<Longrightarrow> length (subkeys (PRNGSequence_reserve J s num)) = length (subkeys s) + nat num"
  by (simp add: PRNGSequence_reserve_def Let_def length_jax_random_split)

lemma PRNGSequence_reserve_nonpositive: "num \<le> 0 \<Longrightarrow> PRNGSequence_reserve J s num = s"
  by (simp add: PRNGSequence_reserve_def)

lemma PRNGSequence_next_Inr_iff:
  "(\<exists>k s'. PRNGSequence_next J cfg s = Inr (k, s')) \<longleftrightarrow>
     (subkeys s \<noteq> [] \<or> 1 \<le> rng_reserve_size cfg)"
proof (cases "subkeys s = []")
  case False
  then show ?thesis by (auto simp: PRNGSequence_next_def Let_def split: list.splits)
next
  case True
  show ?thesis
  proof (cases "1 \<le> rng_reserve_size cfg")
    case r: True
    then have "length (subkeys (PRNGSequence_reserve J s (rng_reserve_size cfg))) \<noteq> 0"
      using subkeys_PRNGSequence_reserve [of "rng_reserve_size cfg" J s] by simp
    then have "subkeys (PRNGSequence_reserve J s (rng_reserve_size cfg)) \<noteq> []" by simp
    with True r show ?thesis by (auto simp: PRNGSequence_next_def Let_def split: list.splits)
  next
    case r: False
    then have "PRNGSequence_reserve J s (rng_reserve_size cfg) = s"
      by (simp add: PRNGSequence_reserve_nonpositive)
    with True r show ?thesis by (simp add: PRNGSequence_next_def Let_def)
  qed
qed

text \<open>
  Claim C4, as the code has it. \<open>next_key\<close> succeeds exactly when the queue holds a key
  or the configured \<open>rng_reserve_size\<close> is at least 1: it has no error condition for any
  reserve size of 1 or more. With a reserve size of 0 (or less) \<open>reserve\<close> does nothing,
  nothing refills the queue on demand, and \<open>next_key\<close> on an empty queue fails with the
  \<open>IndexError\<close> of \<open>popleft\<close>.
\<close>

theorem PRNGSequence_next_succeeds:
  "(\<exists>k s'. PRNGSequence_next J cfg s = Inr (k, s')) \<longleftrightarrow>
     (subkeys s \<noteq> [] \<or> 1 \<le> rng_reserve_size cfg)"
  by (rule PRNGSequence_next_Inr_iff)

theorem PRNGSequence_next_succeeds_witness:
  "1 \<le> rng_reserve_size Config_default \<and>
   (\<exists>k s'. PRNGSequence_next example_random Config_default
              (PRNGSequence_init example_random 42) = Inr (k, s'))"
  using PRNGSequence_next_succeeds [of example_random Config_default
      "PRNGSequence_init example_random 42"]
  by (simp add: Config_default_def)

text \<open>
  The claim as the specification states it, for every reserve size from 0 on, does not
  hold: with \<open>rng_reserve_size = 0\<close> the first \<open>next_key\<close> of a fresh sequence fails.
\<close>

theorem PRNGSequence_next_reserve_0_counterexample:
  "0 \<le> rng_reserve_size \<lparr>rng_reserve_size = 0, global_seed = 42\<rparr> \<and>
   PRNGSequence_next example_random \<lparr>rng_reserve_size = 0, global_seed = 42\<rparr>
     (PRNGSequence_init example_random 42) = Inl IndexError"
  by (simp add: PRNGSequence_next_def PRNGSequence_init_def PRNGSequence_reserve_def Let_def)

lemma PRNGSequence_next_reserve_size:
  "rng_reserve_size c1 = rng_reserve_size c2 \<Longrightarrow> PRNGSequence_next J c1 s = PRNGSequence_next J c2 s"
  unfolding PRNGSequence_next_def by (simp only:)

text \<open>
  Claim C3. Two \<open>PRNGSequence\<close> instances constructed with the same seed and given the
  same sequence of \<open>reserve\<close> and \<open>next\<close> calls return the same sequence of keys (and
  fail at the same calls). The keys depend on nothing but the seed, the calls and the
  configured \<open>rng_reserve_size\<close>: the two runs may differ in the rest of the
  configuration.
\<close>

theorem PRNGSequence_deterministic:
  assumes "rng_reserve_size c1 = rng_reserve_size c2"
  shows "PRNGSequence_run J c1 (PRNGSequence_init J seed) calls =
         PRNGSequence_run J c2 (PRNGSequence_init J seed) calls"
proof -
  have "PRNGSequence_run J c1 s calls = PRNGSequence_run J c2 s calls" for s
  proof (induction calls arbitrary: s)
    case Nil
    show ?case by simp
  next
    case (Cons c cs)
    show ?case
    proof (cases c)
      case (Reserve num)
      then show ?thesis using Cons.IH by simp
    next
      case Next
      then show ?thesis
        using Cons.IH PRNGSequence_next_reserve_size [OF assms, of J s]
        by (simp split: sum.splits prod.splits)
    qed
  qed
  then show ?thesis .
qed

theorem PRNGSequence_deterministic_witness:
  "rng_reserve_size Config_default = rng_reserve_size \<lparr>rng_reserve_size = 1, global_seed = 0\<rparr> \<and>
   PRNGSequence_run example_random Config_default (PRNGSequence_init example_random 7)
     [Next, Reserve 2, Next, Next, Next] =
   PRNGSequence_run example_random \<lparr>rng_reserve_size = 1, global_seed = 0\<rparr>
     (PRNGSequence_init example_random 7) [Next, Reserve 2, Next, Next, Next] \<and>
   PRNGSequence_run example_random Config_default (PRNGSequence_init example_random 7)
     [Next, Reserve 2, Next, Next, Next] = [Inr 721, Inr 72031, Inr 72032, Inr 7203021]"
proof -
  have h: "rng_reserve_size Config_default = rng_reserve_size \<lparr>rng_reserve_size = 1, global_seed = 0\<rparr>"
    by (simp add: Config_default_def)
  have v: "PRNGSequence_run example_random Config_default (PRNGSequence_init example_random 7)
     [Next, Reserve 2, Next, Next, Next] = [Inr 721, Inr 72031, Inr 72032, Inr 7203021]"
    by (simp add: PRNGSequence_next_def PRNGSequence_init_def PRNGSequence_reserve_def
        jax_random_split_def example_random_def Config_default_def Let_def upt_rec)
  show ?thesis
    using h v PRNGSequence_deterministic [OF h, of example_random 7 "[Next, Reserve 2, Next, Next, Next]"]
    by simp
qed

section \<open>Construction of the loader and its index sequence\<close>

lemma DataLoaderJax_shuffle_Inr:
  assumes "DataLoaderJax_shuffle J cfg dl = Inr dl'"
  shows "dataset dl' = dataset dl" and "batch_size dl' = batch_size dl"
    and "shuffle dl' = shuffle dl" and "drop_last dl' = drop_last dl"
    and "data_len dl' = data_len dl" and "pose dl' = pose dl"
    and "permutation_ok J \<Longrightarrow> mset (indices dl') = mset (indices dl)"
  using assms
  by (auto simp: DataLoaderJax_shuffle_def permutation_ok_def
      split: if_splits sum.splits prod.splits)

lemma DataLoaderJax_shuffle_succeeds:
  assumes "shuffle dl \<longrightarrow> subkeys (keys dl) \<noteq> [] \<or> 1 \<le> rng_reserve_size cfg"
  shows "\<exists>dl'. DataLoaderJax_shuffle J cfg dl = Inr dl'"
proof (cases "shuffle dl")
  case False
  then show ?thesis by (simp add: DataLoaderJax_shuffle_def)
next
  case True
  with assms obtain k s' where "PRNGSequence_next J cfg (keys dl) = Inr (k, s')"
    using PRNGSequence_next_Inr_iff [of J cfg "keys dl"] by blast
  with True show ?thesis by (simp add: DataLoaderJax_shuffle_def)
qed

lemma DataLoaderJax_stop_iteration_indices:
  assumes "permutation_ok J"
  shows "mset (indices (snd (DataLoaderJax_stop_iteration J cfg dl))) = mset (indices dl)"
proof (cases "DataLoaderJax_shuffle J cfg (dl\<lparr>pose := 0\<rparr>)")
  case (Inl e)
  then show ?thesis by (simp add: DataLoaderJax_stop_iteration_def Let_def)
next
  case (Inr dl2)
  from DataLoaderJax_shuffle_Inr(7) [OF Inr assms] Inr
  show ?thesis by (simp add: DataLoaderJax_stop_iteration_def Let_def)
qed

lemma DataLoaderJax_next_indices:
  assumes "permutation_ok J"
  shows "mset (indices (snd (DataLoaderJax_next J cfg dl))) = mset (indices dl)"
  using DataLoaderJax_stop_iteration_indices [OF assms, of cfg dl]
  by (auto simp: DataLoaderJax_next_def Let_def split: sum.splits prod.splits)

lemma DataLoaderJax_calls_indices:
  assumes "permutation_ok J"
  shows "mset (indices (DataLoaderJax_calls J cfg n dl)) = mset (indices dl)"
  by (induction n arbitrary: dl) (simp_all add: DataLoaderJax_next_indices [OF assms])

lemma DataLoaderJax_init_Inr:
  assumes "DataLoaderJax_init J cfg ds bsize shuf dlast kwargs = Inr dl"
    and "ArrayDataset_len ds = Inr N"
  shows "dataset dl = ds" and "batch_size dl = bsize" and "shuffle dl = shuf"
    and "drop_last dl = dlast" and "data_len dl = int N" and "pose dl = 0"
    and "permutation_ok J \<Longrightarrow> mset (indices dl) = mset (arange N)"
    and "shuf \<Longrightarrow> 1 \<le> rng_reserve_size cfg"
proof -
  let ?d = "\<lparr>dataset = ds, batch_size = bsize, shuffle = shuf, drop_last = dlast,
             keys = PRNGSequence_init J (global_seed cfg),
             data_len = int N, indices = arange N, pose = 0\<rparr> :: ('a, 'b) DataLoaderJax"
  from assms have s: "DataLoaderJax_shuffle J cfg ?d = Inr dl"
    by (simp add: DataLoaderJax_init_def)
  from DataLoaderJax_shuffle_Inr [OF s]
  show "dataset dl = ds" and "batch_size dl = bsize" and "shuffle dl = shuf"
    and "drop_last dl = dlast" and "data_len dl = int N" and "pose dl = 0"
    and "permutation_ok J \<Longrightarrow> mset (indices dl) = mset (arange N)"
    by simp_all
  show "1 \<le> rng_reserve_size cfg" if shuf
  proof -
    from s that obtain k s' where "PRNGSequence_next J cfg (PRNGSequence_init J (global_seed cfg)) = Inr (k, s')"
      by (auto simp: DataLoaderJax_shuffle_def split: sum.splits)
    then show ?thesis
      using PRNGSequence_next_Inr_iff [of J cfg "PRNGSequence_init J (global_seed cfg)"]
      by (auto simp: PRNGSequence_init_def)
  qed
qed

lemma set_arange: "set (arange n) = {0..<int n}"
  using image_int_atLeastLessThan [of 0 n] by (simp add: arange_def)

lemma length_arange: "length (arange n) = n"
  by (simp add: arange_def)

lemma mset_arange_bijection:
  assumes "mset xs = mset (arange n)"
  shows "bijection_on_range n xs"
proof -
  have "length xs = length (arange n)" using assms by (rule mset_eq_length)
  moreover have "distinct (arange n)" by (simp add: arange_def distinct_map)
  then have "distinct xs" using mset_eq_imp_distinct_iff [OF assms] by simp
  moreover have "set xs = set (arange n)" using assms by (rule mset_eq_setD)
  ultimately show ?thesis by (simp add: bijection_on_range_def set_arange length_arange)
qed

lemma permutation_ok_example_random: "permutation_ok example_random"
  by (simp add: permutation_ok_def example_random_def)

text \<open>
  Claim C8. For a dataset of length \<open>N\<close>, the index sequence \<open>indices\<close> of the iterator
  is a bijection on \<open>[0, N)\<close> at all times: after construction and after any number of
  \<open>next_batch\<close> calls, the ones that end an epoch and reshuffle included, with and
  without shuffling (given that \<open>jax.random.permutation\<close> rearranges its argument).
\<close>

theorem DataLoaderJax_indices_bijection:
  assumes "permutation_ok J"
    and "ArrayDataset_len ds = Inr N"
    and "DataLoaderJax_init J cfg ds bsize shuf dlast kwargs = Inr dl"
  shows "bijection_on_range N (indices (DataLoaderJax_calls J cfg n dl))"
proof -
  have "mset (indices dl) = mset (arange N)"
    using DataLoaderJax_init_Inr(7) [OF assms(3) assms(2) assms(1)] .
  then have "mset (indices (DataLoaderJax_calls J cfg n dl)) = mset (arange N)"
    by (simp add: DataLoaderJax_calls_indices [OF assms(1)])
  then show ?thesis by (rule mset_arange_bijection)
qed

theorem DataLoaderJax_indices_bijection_witness:
  "permutation_ok example_random \<and>
   ArrayDataset_len \<lparr>arrays = [[10, 20, 30 :: int]]\<rparr> = Inr 3 \<and>
   DataLoaderJax_init example_random Config_default \<lparr>arrays = [[10, 20, 30 :: int]]\<rparr>
     2 True False [] =
   Inr \<lparr>dataset = \<lparr>arrays = [[10, 20, 30]]\<rparr>, batch_size = 2, shuffle = True,
        drop_last = False, keys = \<lparr>key = 4220, subkeys = []\<rparr>, data_len = 3,
        indices = [2, 1, 0], pose = 0\<rparr> \<and>
   bijection_on_range 3 (indices (DataLoaderJax_calls example_random Config_default 3
     \<lparr>dataset = \<lparr>arrays = [[10, 20, 30 :: int]]\<rparr>, batch_size = 2, shuffle = True,
        drop_last = False, keys = \<lparr>key = 4220, subkeys = []\<rparr>, data_len = 3,
        indices = [2, 1, 0], pose = 0\<rparr>))"
proof -
  have p: "permutation_ok example_random"
    by (simp add: permutation_ok_def example_random_def)
  have l: "ArrayDataset_len \<lparr>arrays = [[10, 20, 30 :: int]]\<rparr> = Inr 3"
    by (simp add: ArrayDataset_len_def)
  have i: "DataLoaderJax_init example_random Config_default \<lparr>arrays = [[10, 20, 30 :: int]]\<rparr>
     2 True False [] =
   Inr \<lparr>dataset = \<lparr>arrays = [[10, 20, 30]]\<rparr>, batch_size = 2, shuffle = True,
        drop_last = False, keys = \<lparr>key = 4220, subkeys = []\<rparr>, data_len = 3,
        indices = [2, 1, 0], pose = 0\<rparr>"
    by (simp add: DataLoaderJax_init_def ArrayDataset_len_def DataLoaderJax_shuffle_def
        PRNGSequence_init_def PRNGSequence_next_def PRNGSequence_reserve_def
        jax_random_split_def example_random_def Config_default_def arange_def upt_rec Let_def)
  show ?thesis
    using p l i DataLoaderJax_indices_bijection [OF p l i, of 3]
    by simp
qed

text \<open>
  Claim C5, as the code has it. The constructor does not check \<open>batch_size\<close>: for every
  dataset that has a length and every integer batch size, positive or not, construction
  succeeds and stores the batch size as given (with \<open>shuffle=True\<close> it draws a key, which
  needs a reserve size of at least 1). No configuration error is raised.
\<close>

theorem DataLoaderJax_init_any_batch_size:
  assumes "ArrayDataset_len ds = Inr N" and "shuf \<longrightarrow> 1 \<le> rng_reserve_size cfg"
  shows "\<exists>dl. DataLoaderJax_init J cfg ds bsize shuf dlast kwargs = Inr dl \<and> batch_size dl = bsize"
proof -
  let ?d = "\<lparr>dataset = ds, batch_size = bsize, shuffle = shuf, drop_last = dlast,
             keys = PRNGSequence_init J (global_seed cfg),
             data_len = int N, indices = arange N, pose = 0\<rparr> :: ('a, 'b) DataLoaderJax"
  from assms(2) obtain dl where s: "DataLoaderJax_shuffle J cfg ?d = Inr dl"
    using DataLoaderJax_shuffle_succeeds [of ?d cfg J] by auto
  then have "DataLoaderJax_init J cfg ds bsize shuf dlast kwargs = Inr dl"
    using assms(1) by (simp add: DataLoaderJax_init_def)
  moreover have "batch_size dl = bsize" using DataLoaderJax_shuffle_Inr(2) [OF s] by simp
  ultimately show ?thesis by blast
qed


theorem DataLoaderJax_init_any_batch_size_witness:
  "ArrayDataset_len \<lparr>arrays = [[10, 20, 30 :: int]]\<rparr> = Inr 3 \<and>
   1 \<le> rng_reserve_size Config_default \<and>
   (\<exists>dl. DataLoaderJax_init example_random Config_default \<lparr>arrays = [[10, 20, 30 :: int]]\<rparr>
           (- 2) True False [] = Inr dl \<and> batch_size dl = - 2)"
proof -
  have l: "ArrayDataset_len \<lparr>arrays = [[10, 20, 30 :: int]]\<rparr> = Inr 3"
    by (simp add: ArrayDataset_len_def)
  have r: "1 \<le> rng_reserve_size Config_default"
    by (simp add: Config_default_def)
  then have r': "True \<longrightarrow> 1 \<le> rng_reserve_size Config_default" by simp
  show ?thesis
    using l r DataLoaderJax_init_any_batch_size [OF l r', of example_random "- 2" False "[]"]
    by simp
qed

text \<open>
  The claim as the specification states it, with a failure for every batch size that is
  not positive, does not hold: a loader with \<open>batch_size = 0\<close> is constructed.
\<close>

theorem DataLoaderJax_init_batch_size_0_counterexample:
  "DataLoaderJax_init example_random Config_default \<lparr>arrays = [[10, 20, 30 :: int]]\<rparr>
     0 False False [] =
   Inr \<lparr>dataset = \<lparr>arrays = [[10, 20, 30]]\<rparr>, batch_size = 0, shuffle = False,
        drop_last = False, keys = \<lparr>key = 42, subkeys = []\<rparr>, data_len = 3,
        indices = [0, 1, 2], pose = 0\<rparr>"
  by (simp add: DataLoaderJax_init_def ArrayDataset_len_def DataLoaderJax_shuffle_def
      PRNGSequence_init_def example_random_def Config_default_def arange_def upt_rec)

section \<open>Epochs\<close>

subsection \<open>One call of \<open>__next__\<close>\<close>

lemma loader_ok_indices:
  assumes "loader_ok cfg N b dl"
  shows "length (indices dl) = N" and "set (indices dl) = {0..<int N}"
proof -
  from assms have m: "mset (indices dl) = mset (arange N)" by (simp add: loader_ok_def)
  show "length (indices dl) = N" using mset_eq_length [OF m] by (simp add: length_arange)
  show "set (indices dl) = {0..<int N}" using mset_eq_setD [OF m] by (simp add: set_arange)
qed

lemma loader_ok_pose [simp]: "loader_ok cfg N b (dl\<lparr>pose := p\<rparr>) = loader_ok cfg N b dl"
  by (simp add: loader_ok_def)

lemma ndarray_take_in_range:
  assumes "set idxs \<subseteq> {0..<int (length arr)}"
  shows "ndarray_take arr idxs = Inr (map (\<lambda>i. arr ! nat i) idxs)"
  unfolding ndarray_take_def
proof (rule collect_map_Inr)
  fix i assume "i \<in> set idxs"
  with assms have "0 \<le> i" "i < int (length arr)" by auto
  then show "ndarray_getitem arr i = Inr (arr ! nat i)"
    by (simp add: ndarray_getitem_def Let_def)
qed

lemma getitem_batch_gathered:
  assumes "loader_ok cfg N b dl" and "set idxs \<subseteq> set (indices dl)"
  shows "ArrayDataset_getitem_batch (dataset dl) idxs = Inr (gathered (dataset dl) idxs)"
  unfolding ArrayDataset_getitem_batch_def gathered_def
proof (rule collect_map_Inr)
  fix arr assume "arr \<in> set (arrays (dataset dl))"
  with assms(1) have "length arr = N" by (simp add: loader_ok_def)
  with assms(2) loader_ok_indices(2) [OF assms(1)]
  have "set idxs \<subseteq> {0..<int (length arr)}" by simp
  then show "ndarray_take arr idxs = Inr (map (\<lambda>i. arr ! nat i) idxs)"
    by (rule ndarray_take_in_range)
qed

lemma py_slice_nat:
  assumes "p + b \<le> length xs"
  shows "py_slice xs (int p) (int p + int b) = take b (drop p xs)"
proof -
  have "slice_bound (length xs) (int p) = p"
    using assms by (simp add: slice_bound_def)
  moreover have "slice_bound (length xs) (int p + int b) = p + b"
    using assms by (simp add: slice_bound_def nat_add_distrib)
  ultimately show ?thesis by (simp add: py_slice_def Let_def)
qed

lemma py_slice_from_nat: "py_slice_from xs (int p) = drop p xs"
  by (cases "p \<le> length xs") (simp_all add: py_slice_from_def slice_bound_def min_def)

lemma DataLoaderJax_next_full:
  assumes "loader_ok cfg N b dl" and "pose dl = int p" and "p + b \<le> N"
  shows "DataLoaderJax_next J cfg dl =
     (Inr (gathered (dataset dl) (take b (drop p (indices dl)))), dl\<lparr>pose := int (p + b)\<rparr>)"
proof -
  from assms(1) have d: "data_len dl = int N" "batch_size dl = int b"
    by (simp_all add: loader_ok_def)
  have len: "length (indices dl) = N" by (rule loader_ok_indices(1) [OF assms(1)])
  have sl: "py_slice (indices dl) (pose dl) (pose dl + batch_size dl) = take b (drop p (indices dl))"
    using py_slice_nat [of p b "indices dl"] assms(2,3) d len by simp
  have "set (take b (drop p (indices dl))) \<subseteq> set (indices dl)"
    by (meson set_take_subset set_drop_subset subset_trans)
  then have g: "ArrayDataset_getitem_batch (dataset dl) (take b (drop p (indices dl))) =
      Inr (gathered (dataset dl) (take b (drop p (indices dl))))"
    by (rule getitem_batch_gathered [OF assms(1)])
  have c: "pose dl + batch_size dl \<le> data_len dl" using assms(2,3) d by simp
  show ?thesis
    unfolding DataLoaderJax_next_def using c sl g assms(2) d by (simp add: Let_def)
qed

lemma DataLoaderJax_next_tail:
  assumes "loader_ok cfg N b dl" and "pose dl = int p" and "p < N" and "N < p + b"
    and "\<not> drop_last dl"
  shows "DataLoaderJax_next J cfg dl =
     (Inr (gathered (dataset dl) (drop p (indices dl))), dl\<lparr>pose := int (p + b)\<rparr>)"
proof -
  from assms(1) have d: "data_len dl = int N" "batch_size dl = int b"
    by (simp_all add: loader_ok_def)
  have sl: "py_slice_from (indices dl) (pose dl) = drop p (indices dl)"
    using py_slice_from_nat [of "indices dl" p] assms(2) by simp
  have "set (drop p (indices dl)) \<subseteq> set (indices dl)" by (rule set_drop_subset)
  then have g: "ArrayDataset_getitem_batch (dataset dl) (drop p (indices dl)) =
      Inr (gathered (dataset dl) (drop p (indices dl)))"
    by (rule getitem_batch_gathered [OF assms(1)])
  have c: "\<not> pose dl + batch_size dl \<le> data_len dl" "pose dl < data_len dl"
    using assms(2,3,4) d by simp_all
  show ?thesis
    unfolding DataLoaderJax_next_def using c sl g assms(2,5) d by (simp add: Let_def)
qed

lemma DataLoaderJax_shuffle_off:
  "\<not> shuffle dl \<Longrightarrow> DataLoaderJax_shuffle J cfg dl = Inr dl"
  by (simp add: DataLoaderJax_shuffle_def)

lemma DataLoaderJax_next_stop:
  assumes "permutation_ok J" and "loader_ok cfg N b dl" and "pose dl = int p"
    and "N < p + b" and "N \<le> p \<or> drop_last dl"
  shows "\<exists>dl'. DataLoaderJax_next J cfg dl = (Inl StopIteration, dl') \<and>
           loader_ok cfg N b dl' \<and> pose dl' = 0 \<and> drop_last dl' = drop_last dl \<and>
           dataset dl' = dataset dl \<and> shuffle dl' = shuffle dl"
proof -
  from assms(2) have d: "data_len dl = int N" "batch_size dl = int b"
    by (simp_all add: loader_ok_def)
  have c: "\<not> pose dl + batch_size dl \<le> data_len dl" "\<not> (pose dl < data_len dl \<and> \<not> drop_last dl)"
    using assms(3,4,5) d by auto
  let ?d1 = "dl\<lparr>pose := 0\<rparr>"
  from assms(2) have "shuffle ?d1 \<longrightarrow> subkeys (keys ?d1) \<noteq> [] \<or> 1 \<le> rng_reserve_size cfg"
    by (simp add: loader_ok_def)
  then obtain dl' where s: "DataLoaderJax_shuffle J cfg ?d1 = Inr dl'"
    using DataLoaderJax_shuffle_succeeds [of ?d1 cfg J] by blast
  note f = DataLoaderJax_shuffle_Inr [OF s]
  have n: "DataLoaderJax_next J cfg dl = (Inl StopIteration, dl')"
    unfolding DataLoaderJax_next_def DataLoaderJax_stop_iteration_def using c s
    by (auto simp: Let_def)
  have "indices dl' = indices dl" if "\<not> shuffle dl"
  proof -
    from that have "DataLoaderJax_shuffle J cfg ?d1 = Inr ?d1"
      by (simp add: DataLoaderJax_shuffle_off)
    with s have "dl' = ?d1" by simp
    then show ?thesis by simp
  qed
  then have "loader_ok cfg N b dl'"
    using assms(2) f(1,2,3,5) f(7) [OF assms(1)] by (auto simp: loader_ok_def)
  with n f(1,3,4,6) show ?thesis by simp
qed

subsection \<open>One epoch\<close>

lemma div_batches_full:
  fixes b :: nat
  assumes "0 < b" and "p + b \<le> N"
  shows "(N - p) div b = Suc ((N - (p + b)) div b)"
    and "(N - p + b - 1) div b = Suc ((N - (p + b) + b - 1) div b)"
proof -
  have b: "b \<noteq> 0" using assms(1) by simp
  have "N - p = (N - (p + b)) + b" using assms(2) by linarith
  then have "(N - p) div b = ((N - (p + b)) + b) div b" by (rule arg_cong)
  also have "\<dots> = Suc ((N - (p + b)) div b)" using div_add_self2 [OF b] by simp
  finally show "(N - p) div b = Suc ((N - (p + b)) div b)" .
  have "N - p + b - 1 = (N - (p + b) + b - 1) + b" using assms by linarith
  then have "(N - p + b - 1) div b = ((N - (p + b) + b - 1) + b) div b" by (rule arg_cong)
  also have "\<dots> = Suc ((N - (p + b) + b - 1) div b)" using div_add_self2 [OF b] by simp
  finally show "(N - p + b - 1) div b = Suc ((N - (p + b) + b - 1) div b)" .
qed

lemma div_batches_tail:
  fixes b :: nat
  assumes "p < N" and "N < p + b"
  shows "(N - p + b - 1) div b = 1"
proof -
  have b: "b \<noteq> 0" using assms by linarith
  have "N - p + b - 1 = (N - p - 1) + b" using assms by linarith
  then have "(N - p + b - 1) div b = ((N - p - 1) + b) div b" by (rule arg_cong)
  also have "\<dots> = Suc ((N - p - 1) div b)" using div_add_self2 [OF b] by simp
  also have "(N - p - 1) div b = 0"
  proof -
    have "N - p - 1 < b" using assms by linarith
    then show ?thesis by simp
  qed
  finally show ?thesis by simp
qed

lemma div_batches_stop:
  fixes b :: nat
  assumes "0 < b" and "N < p + b"
  shows "(N - p) div b = 0"
proof -
  have "N - p < b" using assms by linarith
  then show ?thesis by simp
qed

lemma div_batches_end:
  fixes b :: nat
  assumes "0 < b" and "N \<le> p"
  shows "(N - p + b - 1) div b = 0"
proof -
  have "N - p + b - 1 < b" using assms by linarith
  then show ?thesis by simp
qed

lemma DataLoaderJax_epoch_from:
  assumes perm: "permutation_ok J"
  shows "loader_ok cfg N b dl \<Longrightarrow> pose dl = int p \<Longrightarrow> N - p < fuel \<Longrightarrow>
    \<exists>ibs dl'. DataLoaderJax_epoch J cfg fuel dl =
         Some (map (gathered (dataset dl)) ibs, StopIteration, dl') \<and>
       concat ibs = (if drop_last dl then take ((N - p) div b * b) (drop p (indices dl))
                     else drop p (indices dl)) \<and>
       length ibs = (if drop_last dl then (N - p) div b else (N - p + b - 1) div b) \<and>
       (drop_last dl \<longrightarrow> (\<forall>is\<in>set ibs. length is = b)) \<and>
       loader_ok cfg N b dl' \<and> pose dl' = 0 \<and> drop_last dl' = drop_last dl \<and>
       dataset dl' = dataset dl \<and> shuffle dl' = shuffle dl"
proof (induction fuel arbitrary: dl p)
  case 0
  then show ?case by simp
next
  case (Suc f)
  note ok = Suc.prems(1) and pose = Suc.prems(2) and fuel = Suc.prems(3)
  from ok have b: "0 < b" by (simp add: loader_ok_def)
  have len: "length (indices dl) = N" by (rule loader_ok_indices(1) [OF ok])
  let ?idx = "indices dl"
  define d1 where "d1 = dl\<lparr>pose := int (p + b)\<rparr>"
  have d1: "dataset d1 = dataset dl" "indices d1 = indices dl" "drop_last d1 = drop_last dl"
      "shuffle d1 = shuffle dl"
    and ok1: "loader_ok cfg N b d1" and pose1: "pose d1 = int (p + b)"
    using ok by (simp_all add: d1_def)
  have step: "\<exists>ibs dl'. DataLoaderJax_epoch J cfg f d1 =
         Some (map (gathered (dataset dl)) ibs, StopIteration, dl') \<and>
       concat ibs = (if drop_last dl then take ((N - (p + b)) div b * b) (drop (p + b) ?idx)
                     else drop (p + b) ?idx) \<and>
       length ibs = (if drop_last dl then (N - (p + b)) div b else (N - (p + b) + b - 1) div b) \<and>
       (drop_last dl \<longrightarrow> (\<forall>is\<in>set ibs. length is = b)) \<and>
       loader_ok cfg N b dl' \<and> pose dl' = 0 \<and> drop_last dl' = drop_last dl \<and>
       dataset dl' = dataset dl \<and> shuffle dl' = shuffle dl" if "N - (p + b) < f"
    using Suc.IH [OF ok1 pose1 that] unfolding d1 .
  consider (full) "p + b \<le> N" | (tail) "N < p + b" "p < N" "\<not> drop_last dl"
    | (stop) "N < p + b" "N \<le> p \<or> drop_last dl"
    by linarith
  then show ?case
  proof cases
    case full
    have n: "DataLoaderJax_next J cfg dl =
        (Inr (gathered (dataset dl) (take b (drop p ?idx))), d1)"
      unfolding d1_def by (rule DataLoaderJax_next_full [OF ok pose full])
    have "N - (p + b) < f" using fuel full b by linarith
    from step [OF this] obtain ibs dl' where
      e: "DataLoaderJax_epoch J cfg f d1 = Some (map (gathered (dataset dl)) ibs, StopIteration, dl')"
      and c: "concat ibs = (if drop_last dl then take ((N - (p + b)) div b * b) (drop (p + b) ?idx)
                     else drop (p + b) ?idx)"
      and l: "length ibs = (if drop_last dl then (N - (p + b)) div b else (N - (p + b) + b - 1) div b)"
      and a: "drop_last dl \<longrightarrow> (\<forall>is\<in>set ibs. length is = b)"
      and r: "loader_ok cfg N b dl'" "pose dl' = 0" "drop_last dl' = drop_last dl"
        "dataset dl' = dataset dl" "shuffle dl' = shuffle dl"
      by blast
    let ?ibs = "take b (drop p ?idx) # ibs"
    have e': "DataLoaderJax_epoch J cfg (Suc f) dl =
        Some (map (gathered (dataset dl)) ?ibs, StopIteration, dl')"
      using n e by simp
    have c1: "take b (drop p ?idx) @ drop (p + b) ?idx = drop p ?idx"
      by (metis add.commute append_take_drop_id drop_drop)
    have c2: "take b (drop p ?idx) @ take m (drop (p + b) ?idx) = take (b + m) (drop p ?idx)" for m
      by (simp add: take_add add.commute)
    have c': "concat ?ibs = (if drop_last dl then take ((N - p) div b * b) (drop p ?idx)
                     else drop p ?idx)"
      using c c1 c2 div_batches_full(1) [OF b full] by simp
    have l': "length ?ibs = (if drop_last dl then (N - p) div b else (N - p + b - 1) div b)"
      using l div_batches_full [OF b full] by simp
    have "length (take b (drop p ?idx)) = b" using len full by simp
    with a have a': "drop_last dl \<longrightarrow> (\<forall>is\<in>set ?ibs. length is = b)" by simp
    show ?thesis
      by (rule exI [of _ ?ibs], rule exI [of _ dl'], intro conjI) (fact e' c' l' a' r)+
  next
    case tail
    have n: "DataLoaderJax_next J cfg dl = (Inr (gathered (dataset dl) (drop p ?idx)), d1)"
      unfolding d1_def by (rule DataLoaderJax_next_tail [OF ok pose tail(2) tail(1) tail(3)])
    have "N - (p + b) < f" using fuel tail by linarith
    from step [OF this] obtain ibs dl' where
      e: "DataLoaderJax_epoch J cfg f d1 = Some (map (gathered (dataset dl)) ibs, StopIteration, dl')"
      and l: "length ibs = (if drop_last dl then (N - (p + b)) div b else (N - (p + b) + b - 1) div b)"
      and r: "loader_ok cfg N b dl'" "pose dl' = 0" "drop_last dl' = drop_last dl"
        "dataset dl' = dataset dl" "shuffle dl' = shuffle dl"
      by blast
    have "(N - (p + b) + b - 1) div b = 0"
      by (rule div_batches_end [OF b]) (use tail in linarith)
    with l tail(3) have "ibs = []" by simp
    let ?ibs = "[drop p ?idx]"
    have e': "DataLoaderJax_epoch J cfg (Suc f) dl =
        Some (map (gathered (dataset dl)) ?ibs, StopIteration, dl')"
      using n e \<open>ibs = []\<close> by simp
    have c': "concat ?ibs = (if drop_last dl then take ((N - p) div b * b) (drop p ?idx)
                     else drop p ?idx)"
      using tail(3) by simp
    have l': "length ?ibs = (if drop_last dl then (N - p) div b else (N - p + b - 1) div b)"
      using tail(3) div_batches_tail [OF tail(2) tail(1)] by simp
    have a': "drop_last dl \<longrightarrow> (\<forall>is\<in>set ?ibs. length is = b)" using tail(3) by simp
    show ?thesis
      by (rule exI [of _ ?ibs], rule exI [of _ dl'], intro conjI) (fact e' c' l' a' r)+
  next
    case stop
    from DataLoaderJax_next_stop [OF perm ok pose stop] obtain dl' where
      n: "DataLoaderJax_next J cfg dl = (Inl StopIteration, dl')"
      and r: "loader_ok cfg N b dl'" "pose dl' = 0" "drop_last dl' = drop_last dl"
        "dataset dl' = dataset dl" "shuffle dl' = shuffle dl"
      by blast
    let ?ibs = "[] :: int list list"
    have e': "DataLoaderJax_epoch J cfg (Suc f) dl =
        Some (map (gathered (dataset dl)) ?ibs, StopIteration, dl')"
      using n by simp
    have z: "(N - p) div b = 0" by (rule div_batches_stop [OF b stop(1)])
    have c': "concat ?ibs = (if drop_last dl then take ((N - p) div b * b) (drop p ?idx)
                     else drop p ?idx)"
      using stop(2) z len by auto
    have l': "length ?ibs = (if drop_last dl then (N - p) div b else (N - p + b - 1) div b)"
      using stop(2) z div_batches_end [OF b] by auto
    have a': "drop_last dl \<longrightarrow> (\<forall>is\<in>set ?ibs. length is = b)" by simp
    show ?thesis
      by (rule exI [of _ ?ibs], rule exI [of _ dl'], intro conjI) (fact e' c' l' a' r)+
  qed
qed

lemma DataLoaderJax_after_epochs_ok:
  assumes perm: "permutation_ok J" and fuel: "N < fuel"
  shows "loader_ok cfg N b dl \<Longrightarrow> pose dl = 0 \<Longrightarrow>
    \<exists>dl'. DataLoaderJax_after_epochs J cfg fuel k dl = Some dl' \<and>
       loader_ok cfg N b dl' \<and> pose dl' = 0 \<and> drop_last dl' = drop_last dl \<and>
       dataset dl' = dataset dl \<and> shuffle dl' = shuffle dl"
proof (induction k arbitrary: dl)
  case 0
  then show ?case by simp
next
  case (Suc k)
  have "pose dl = int 0" "N - 0 < fuel" using Suc.prems(2) fuel by simp_all
  from DataLoaderJax_epoch_from [OF perm Suc.prems(1) this] obtain ibs d1 where
    e: "DataLoaderJax_epoch J cfg fuel dl = Some (map (gathered (dataset dl)) ibs, StopIteration, d1)"
    and r: "loader_ok cfg N b d1" "pose d1 = 0" "drop_last d1 = drop_last dl"
      "dataset d1 = dataset dl" "shuffle d1 = shuffle dl"
    by blast
  from Suc.IH [OF r(1,2)] obtain dl' where
    "DataLoaderJax_after_epochs J cfg fuel k d1 = Some dl'"
    "loader_ok cfg N b dl'" "pose dl' = 0" "drop_last dl' = drop_last d1" "dataset dl' = dataset d1"
    "shuffle dl' = shuffle d1"
    by blast
  with e r show ?case by simp
qed

lemma concatenate_batches_gathered:
  "concatenate_batches (length (arrays ds)) (map (gathered ds) ibs) = gathered ds (concat ibs)"
proof (rule nth_equalityI)
  show "length (concatenate_batches (length (arrays ds)) (map (gathered ds) ibs)) =
      length (gathered ds (concat ibs))"
    by (simp add: concatenate_batches_def gathered_def)
next
  fix c assume "c < length (concatenate_batches (length (arrays ds)) (map (gathered ds) ibs))"
  then have c: "c < length (arrays ds)" by (simp add: concatenate_batches_def)
  have "concat (map (\<lambda>b. b ! c) (map (gathered ds) ibs)) =
      map (\<lambda>i. arrays ds ! c ! nat i) (concat ibs)"
    using c by (induction ibs) (simp_all add: gathered_def)
  with c show "concatenate_batches (length (arrays ds)) (map (gathered ds) ibs) ! c =
      gathered ds (concat ibs) ! c"
    by (simp add: concatenate_batches_def gathered_def)
qed

lemma DataLoaderJax_init_loader_ok:
  assumes "permutation_ok J"
    and "ArrayDataset_init arrs = Inr ds" and "ArrayDataset_len ds = Inr N"
    and "0 < B"
    and "DataLoaderJax_init J cfg ds B shuf dlast kwargs = Inr dl"
  shows "loader_ok cfg N (nat B) dl" and "pose dl = 0" and "drop_last dl = dlast"
    and "dataset dl = ds" and "shuffle dl = shuf"
proof -
  note i = DataLoaderJax_init_Inr [OF assms(5) assms(3)]
  note a = ArrayDataset_init_Inr [OF assms(2)]
  show "pose dl = 0" "drop_last dl = dlast" "dataset dl = ds" "shuffle dl = shuf"
    using i by simp_all
  have "indices dl = arange N" if "\<not> shuf"
    using assms(3,5) that by (auto simp: DataLoaderJax_init_def DataLoaderJax_shuffle_def)
  then show "loader_ok cfg N (nat B) dl"
    using i(1,2,3,5) i(7) [OF assms(1)] i(8) a(1) a(2) [OF assms(3)] a(3) [OF assms(3)] assms(4)
    by (auto simp: loader_ok_def)
qed

lemma loader_ok_len:
  assumes "loader_ok cfg N b dl"
  shows "DataLoaderJax_len dl =
     Inr (if drop_last dl then int N div int b else - (int N div - int b))"
proof -
  from assms obtain a rest where "arrays (dataset dl) = a # rest"
    by (cases "arrays (dataset dl)") (auto simp: loader_ok_def)
  moreover from this assms have "length a = N" by (simp add: loader_ok_def)
  ultimately have "ArrayDataset_len (dataset dl) = Inr N" by (simp add: ArrayDataset_len_def)
  with assms show ?thesis by (simp add: DataLoaderJax_len_def loader_ok_def)
qed

lemma ceil_nat_cases:
  fixes b :: nat
  assumes "0 < b"
  shows "(N + b - 1) div b = (if N mod b = 0 then N div b else Suc (N div b))"
proof -
  define q r where "q = N div b" and "r = N mod b"
  have N: "N = q * b + r" and r: "r < b" using assms by (simp_all add: q_def r_def)
  have b: "b \<noteq> 0" using assms by simp
  show ?thesis
  proof (cases "r = 0")
    case True
    then have "N + b - 1 = q * b + (b - 1)" using N assms by simp
    then have "(N + b - 1) div b = (q * b + (b - 1)) div b" by (rule arg_cong)
    also have "\<dots> = q + (b - 1) div b" by (rule div_mult_self3 [OF b])
    also have "(b - 1) div b = 0" using assms by simp
    finally show ?thesis using True by (simp add: q_def r_def)
  next
    case False
    then have "N + b - 1 = Suc q * b + (r - 1)" using N by simp
    then have "(N + b - 1) div b = (Suc q * b + (r - 1)) div b" by (rule arg_cong)
    also have "\<dots> = Suc q + (r - 1) div b" by (rule div_mult_self3 [OF b])
    also have "(r - 1) div b = 0" using r by simp
    finally show ?thesis using False by (simp add: q_def r_def)
  qed
qed

lemma ceil_div_nat:
  fixes b :: nat
  assumes "0 < b"
  shows "- (int N div - int b) = int ((N + b - 1) div b)"
proof -
  have b: "int b \<noteq> 0" using assms by simp
  have "int N div - int b = (- int N) div int b" by (rule div_minus_right)
  also have "\<dots> = (if int N mod int b = 0 then - (int N div int b) else - (int N div int b) - 1)"
    by (rule zdiv_zminus1_eq_if [OF b])
  finally have "- (int N div - int b) =
      (if int N mod int b = 0 then int N div int b else int N div int b + 1)"
    by simp
  also have "\<dots> = int (if N mod b = 0 then N div b else Suc (N div b))"
  proof -
    have "int N mod int b = int (N mod b)" by (simp only: zmod_int)
    then have m: "int N mod int b = 0 \<longleftrightarrow> N mod b = 0" by (simp only: of_nat_eq_0_iff)
    have d: "int N div int b = int (N div b)" by (simp only: zdiv_int)
    show ?thesis unfolding m d by simp
  qed
  finally show ?thesis by (simp only: ceil_nat_cases [OF assms])
qed

lemma ceil_div_bounds:
  fixes b :: nat
  assumes "0 < b"
  shows "(int ((N + b - 1) div b) - 1) * int b < int N"
    and "int N \<le> int ((N + b - 1) div b) * int b"
proof -
  define q r where "q = N div b" and "r = N mod b"
  have N: "N = q * b + r" and r: "r < b" using assms by (simp_all add: q_def r_def)
  have c: "(N + b - 1) div b = (if r = 0 then q else Suc q)"
    using ceil_nat_cases [OF assms, of N] by (simp add: q_def r_def)
  have iN: "int N = int q * int b + int r" using N by (metis of_nat_add of_nat_mult)
  show "(int ((N + b - 1) div b) - 1) * int b < int N"
    using c iN r assms by (cases "r = 0") (simp_all add: algebra_simps)
  show "int N \<le> int ((N + b - 1) div b) * int b"
    using c iN r assms by (cases "r = 0") (simp_all add: algebra_simps)
qed

lemma DataLoaderJax_epoch_k:
  assumes "permutation_ok J"
    and "ArrayDataset_init arrs = Inr ds" and "ArrayDataset_len ds = Inr N"
    and "0 < B" and "N < fuel"
    and "DataLoaderJax_init J cfg ds B shuf dlast kwargs = Inr dl0"
  shows "\<exists>dl ibs dl'.
     DataLoaderJax_after_epochs J cfg fuel k dl0 = Some dl \<and>
     DataLoaderJax_epoch J cfg fuel dl = Some (map (gathered ds) ibs, StopIteration, dl') \<and>
     loader_ok cfg N (nat B) dl \<and> drop_last dl = dlast \<and> dataset dl = ds \<and>
     shuffle dl = shuf \<and>
     concat ibs = (if dlast then take (N div nat B * nat B) (indices dl) else indices dl) \<and>
     length ibs = (if dlast then N div nat B else (N + nat B - 1) div nat B) \<and>
     (dlast \<longrightarrow> (\<forall>is\<in>set ibs. length is = nat B))"
proof -
  note i = DataLoaderJax_init_loader_ok [OF assms(1,2,3,4,6)]
  from DataLoaderJax_after_epochs_ok [OF assms(1,5) i(1,2), of k] i(3,4,5)
  obtain dl where a: "DataLoaderJax_after_epochs J cfg fuel k dl0 = Some dl"
    and ok: "loader_ok cfg N (nat B) dl" and p: "pose dl = 0"
    and d: "drop_last dl = dlast" "dataset dl = ds" "shuffle dl = shuf"
    by auto
  have "pose dl = int 0" "N - 0 < fuel" using p assms(5) by simp_all
  from DataLoaderJax_epoch_from [OF assms(1) ok this] obtain ibs dl' where
    e: "DataLoaderJax_epoch J cfg fuel dl =
         Some (map (gathered (dataset dl)) ibs, StopIteration, dl')"
    and c: "concat ibs = (if drop_last dl then take ((N - 0) div nat B * nat B) (drop 0 (indices dl))
                     else drop 0 (indices dl))"
    and l: "length ibs = (if drop_last dl then (N - 0) div nat B else (N - 0 + nat B - 1) div nat B)"
    and f: "drop_last dl \<longrightarrow> (\<forall>is\<in>set ibs. length is = nat B)"
    by blast
  from e d have e': "DataLoaderJax_epoch J cfg fuel dl = Some (map (gathered ds) ibs, StopIteration, dl')"
    by simp
  from c d have c': "concat ibs = (if dlast then take (N div nat B * nat B) (indices dl) else indices dl)"
    by simp
  from l d have l': "length ibs = (if dlast then N div nat B else (N + nat B - 1) div nat B)"
    by simp
  from f d have f': "dlast \<longrightarrow> (\<forall>is\<in>set ibs. length is = nat B)" by simp
  show ?thesis
    by (rule exI [of _ dl], rule exI [of _ ibs], rule exI [of _ dl'], intro conjI)
      (fact a e' ok d c' l' f')+
qed

subsection \<open>The claims about epochs\<close>

text \<open>
  Claim C1. For a dataset of length \<open>N\<close>, a positive batch size \<open>B\<close> and either shuffle
  setting, every epoch of an iterator constructed with \<open>drop_last=False\<close> ends (given
  fuel for \<open>N + 1\<close> calls) with \<open>StopIteration\<close>, and the batches it yields, concatenated,
  are the samples of the dataset at the epoch's permutation, in that order. The
  permutation is a bijection on \<open>[0, N)\<close> (the identity without shuffling), so every
  index is visited exactly once, although the tail branch advances the cursor by the
  whole batch size. \<open>length()\<close> returns the number of batches, which is \<open>ceil(N/B)\<close>:
  the number \<open>c\<close> with \<open>(c - 1) * B < N \<le> c * B\<close>. The epoch is the one after \<open>k\<close>
  earlier epochs, for any \<open>k\<close>.
\<close>

theorem DataLoaderJax_epoch_keep_last:
  assumes "permutation_ok J"
    and "ArrayDataset_init arrs = Inr ds" and "ArrayDataset_len ds = Inr N"
    and "0 < B" and "N < fuel"
    and "DataLoaderJax_init J cfg ds B shuf False kwargs = Inr dl0"
  shows "\<exists>dl batches dl'.
     DataLoaderJax_after_epochs J cfg fuel k dl0 = Some dl \<and>
     DataLoaderJax_epoch J cfg fuel dl = Some (batches, StopIteration, dl') \<and>
     bijection_on_range N (indices dl) \<and> (\<not> shuf \<longrightarrow> indices dl = arange N) \<and>
     ArrayDataset_getitem_batch ds (indices dl) =
       Inr (concatenate_batches (length arrs) batches) \<and>
     DataLoaderJax_len dl = Inr (int (length batches)) \<and>
     (int (length batches) - 1) * B < int N \<and> int N \<le> int (length batches) * B"
proof -
  from DataLoaderJax_epoch_k [OF assms, of k] obtain dl ibs dl' where
    a: "DataLoaderJax_after_epochs J cfg fuel k dl0 = Some dl"
    and e: "DataLoaderJax_epoch J cfg fuel dl = Some (map (gathered ds) ibs, StopIteration, dl')"
    and ok: "loader_ok cfg N (nat B) dl" and d: "drop_last dl = False" "dataset dl = ds"
    and sh: "shuffle dl = shuf"
    and c: "concat ibs = indices dl"
    and l: "length ibs = (N + nat B - 1) div nat B"
    by auto
  have b: "0 < nat B" "int (nat B) = B" using assms(4) by simp_all
  have arrs: "arrays ds = arrs" by (rule ArrayDataset_init_Inr(1) [OF assms(2)])
  have bij: "bijection_on_range N (indices dl)"
    using ok by (intro mset_arange_bijection) (simp add: loader_ok_def)
  have id: "\<not> shuf \<longrightarrow> indices dl = arange N" using ok sh by (simp add: loader_ok_def)
  have "ArrayDataset_getitem_batch (dataset dl) (indices dl) = Inr (gathered (dataset dl) (indices dl))"
    by (rule getitem_batch_gathered [OF ok]) simp
  then have g: "ArrayDataset_getitem_batch ds (indices dl) =
       Inr (concatenate_batches (length arrs) (map (gathered ds) ibs))"
    using concatenate_batches_gathered [of ds ibs] c d arrs by simp
  have len: "DataLoaderJax_len dl = Inr (int (length (map (gathered ds) ibs)))"
    using loader_ok_len [OF ok] d l ceil_div_nat [OF b(1), of N] b(2) by simp
  have bounds: "(int (length (map (gathered ds) ibs)) - 1) * B < int N"
      "int N \<le> int (length (map (gathered ds) ibs)) * B"
    using ceil_div_bounds [OF b(1), of N] l b(2) by simp_all
  show ?thesis
    by (rule exI [of _ dl], rule exI [of _ "map (gathered ds) ibs"], rule exI [of _ dl'],
        intro conjI) (fact a e bij id g len bounds)+
qed

theorem DataLoaderJax_epoch_keep_last_witness:
  "permutation_ok example_random \<and>
   ArrayDataset_init [[10, 20, 30, 40, 50 :: int], [1, 2, 3, 4, 5]] =
     Inr \<lparr>arrays = [[10, 20, 30, 40, 50], [1, 2, 3, 4, 5]]\<rparr> \<and>
   ArrayDataset_len \<lparr>arrays = [[10, 20, 30, 40, 50 :: int], [1, 2, 3, 4, 5]]\<rparr> = Inr 5 \<and>
   (0 :: int) < 2 \<and> (5 :: nat) < 6 \<and>
   DataLoaderJax_init example_random Config_default
     \<lparr>arrays = [[10, 20, 30, 40, 50 :: int], [1, 2, 3, 4, 5]]\<rparr> 2 True False [] =
     Inr \<lparr>dataset = \<lparr>arrays = [[10, 20, 30, 40, 50], [1, 2, 3, 4, 5]]\<rparr>,
          batch_size = 2, shuffle = True, drop_last = False,
          keys = \<lparr>key = 4220, subkeys = []\<rparr>, data_len = 5,
          indices = [4, 3, 2, 1, 0], pose = 0\<rparr> \<and>
   (\<exists>dl batches dl'.
     DataLoaderJax_after_epochs example_random Config_default 6 1
       \<lparr>dataset = \<lparr>arrays = [[10, 20, 30, 40, 50 :: int], [1, 2, 3, 4, 5]]\<rparr>,
          batch_size = 2, shuffle = True, drop_last = False,
          keys = \<lparr>key = 4220, subkeys = []\<rparr>, data_len = 5,
          indices = [4, 3, 2, 1, 0], pose = 0\<rparr> = Some dl \<and>
     DataLoaderJax_epoch example_random Config_default 6 dl = Some (batches, StopIteration, dl') \<and>
     bijection_on_range 5 (indices dl) \<and> (\<not> True \<longrightarrow> indices dl = arange 5) \<and>
     ArrayDataset_getitem_batch \<lparr>arrays = [[10, 20, 30, 40, 50 :: int], [1, 2, 3, 4, 5]]\<rparr>
       (indices dl) =
       Inr (concatenate_batches (length [[10, 20, 30, 40, 50 :: int], [1, 2, 3, 4, 5]]) batches) \<and>
     DataLoaderJax_len dl = Inr (int (length batches)) \<and>
     (int (length batches) - 1) * 2 < int 5 \<and> int 5 \<le> int (length batches) * 2) \<and>
   DataLoaderJax_epoch example_random Config_default 6
       \<lparr>dataset = \<lparr>arrays = [[10, 20, 30, 40, 50 :: int], [1, 2, 3, 4, 5]]\<rparr>,
          batch_size = 2, shuffle = True, drop_last = False,
          keys = \<lparr>key = 4220, subkeys = []\<rparr>, data_len = 5,
          indices = [4, 3, 2, 1, 0], pose = 0\<rparr> =
     Some ([[[50, 40], [5, 4]], [[30, 20], [3, 2]], [[10], [1]]], StopIteration,
       \<lparr>dataset = \<lparr>arrays = [[10, 20, 30, 40, 50], [1, 2, 3, 4, 5]]\<rparr>,
          batch_size = 2, shuffle = True, drop_last = False,
          keys = \<lparr>key = 422020, subkeys = []\<rparr>, data_len = 5,
          indices = [0, 1, 2, 3, 4], pose = 0\<rparr>)"
proof -
  let ?arrs = "[[10, 20, 30, 40, 50 :: int], [1, 2, 3, 4, 5]]"
  let ?dl0 = "\<lparr>dataset = \<lparr>arrays = [[10, 20, 30, 40, 50 :: int], [1, 2, 3, 4, 5]]\<rparr>,
          batch_size = 2, shuffle = True, drop_last = False,
          keys = \<lparr>key = 4220, subkeys = []\<rparr>, data_len = 5,
          indices = [4, 3, 2, 1, 0], pose = 0\<rparr> :: (int, int) DataLoaderJax"
  have p: "permutation_ok example_random"
    by (simp add: permutation_ok_def example_random_def)
  have i: "ArrayDataset_init ?arrs = Inr \<lparr>arrays = ?arrs\<rparr>"
    by (simp add: ArrayDataset_init_def)
  have l: "ArrayDataset_len \<lparr>arrays = ?arrs\<rparr> = Inr 5"
    by (simp add: ArrayDataset_len_def)
  have b: "(0 :: int) < 2" and f: "(5 :: nat) < 6" by simp_all
  have d: "DataLoaderJax_init example_random Config_default \<lparr>arrays = ?arrs\<rparr> 2 True False [] =
      Inr ?dl0"
    by code_simp
  have e: "DataLoaderJax_epoch example_random Config_default 6 ?dl0 =
     Some ([[[50, 40], [5, 4]], [[30, 20], [3, 2]], [[10], [1]]], StopIteration,
       \<lparr>dataset = \<lparr>arrays = [[10, 20, 30, 40, 50], [1, 2, 3, 4, 5]]\<rparr>,
          batch_size = 2, shuffle = True, drop_last = False,
          keys = \<lparr>key = 422020, subkeys = []\<rparr>, data_len = 5,
          indices = [0, 1, 2, 3, 4], pose = 0\<rparr>)"
    by code_simp
  note c = DataLoaderJax_epoch_keep_last [OF p i l b f d, of 1]
  from p i l d c e show ?thesis by (intro conjI) simp_all
qed

text \<open>
  Claim C2. For a dataset of length \<open>N\<close> and a positive batch size \<open>B\<close>, every epoch of
  an iterator constructed with \<open>drop_last=True\<close> ends with \<open>StopIteration\<close> and yields
  \<open>floor(N/B)\<close> batches, all of them full (\<open>B\<close> entries in every column). Together they
  are the samples at the first \<open>floor(N/B) * B\<close> indices of the epoch's permutation, which
  are distinct indices of \<open>[0, N)\<close>. \<open>length()\<close> returns \<open>floor(N/B)\<close>.
\<close>

theorem DataLoaderJax_epoch_drop_last:
  assumes "permutation_ok J"
    and "ArrayDataset_init arrs = Inr ds" and "ArrayDataset_len ds = Inr N"
    and "0 < B" and "N < fuel"
    and "DataLoaderJax_init J cfg ds B shuf True kwargs = Inr dl0"
  shows "\<exists>dl batches dl' visited.
     DataLoaderJax_after_epochs J cfg fuel k dl0 = Some dl \<and>
     DataLoaderJax_epoch J cfg fuel dl = Some (batches, StopIteration, dl') \<and>
     (\<forall>batch\<in>set batches. \<forall>col\<in>set batch. int (length col) = B) \<and>
     visited = take (nat (int N div B * B)) (indices dl) \<and>
     ArrayDataset_getitem_batch ds visited = Inr (concatenate_batches (length arrs) batches) \<and>
     int (length visited) = int N div B * B \<and>
     distinct visited \<and> set visited \<subseteq> {0..<int N} \<and>
     int (length batches) = int N div B \<and>
     DataLoaderJax_len dl = Inr (int N div B)"
proof -
  from DataLoaderJax_epoch_k [OF assms, of k] obtain dl ibs dl' where
    a: "DataLoaderJax_after_epochs J cfg fuel k dl0 = Some dl"
    and e: "DataLoaderJax_epoch J cfg fuel dl = Some (map (gathered ds) ibs, StopIteration, dl')"
    and ok: "loader_ok cfg N (nat B) dl" and d: "drop_last dl = True" "dataset dl = ds"
    and c: "concat ibs = take (N div nat B * nat B) (indices dl)"
    and l: "length ibs = N div nat B"
    and f: "\<forall>is\<in>set ibs. length is = nat B"
    by auto
  have b: "0 < nat B" "int (nat B) = B" using assms(4) by simp_all
  have arrs: "arrays ds = arrs" by (rule ArrayDataset_init_Inr(1) [OF assms(2)])
  have dv: "int (N div nat B) = int N div B" using b(2) by (simp add: zdiv_int)
  then have m: "int (N div nat B * nat B) = int N div B * B" using b(2) by simp
  define visited where "visited = take (nat (int N div B * B)) (indices dl)"
  have v: "visited = take (N div nat B * nat B) (indices dl)"
    unfolding visited_def using m by (metis nat_int)
  have bij: "bijection_on_range N (indices dl)"
    using ok by (intro mset_arange_bijection) (simp add: loader_ok_def)
  have full: "\<forall>batch\<in>set (map (gathered ds) ibs). \<forall>col\<in>set batch. int (length col) = B"
    using f b(2) by (auto simp: gathered_def)
  have "set visited \<subseteq> set (indices dl)" unfolding v by (rule set_take_subset)
  then have "ArrayDataset_getitem_batch (dataset dl) visited = Inr (gathered (dataset dl) visited)"
    by (rule getitem_batch_gathered [OF ok])
  then have g: "ArrayDataset_getitem_batch ds visited =
       Inr (concatenate_batches (length arrs) (map (gathered ds) ibs))"
    using concatenate_batches_gathered [of ds ibs] c d arrs v by simp
  have "N div nat B * nat B \<le> N" by simp
  then have "length visited = N div nat B * nat B"
    unfolding v using bij by (simp add: bijection_on_range_def)
  then have lv: "int (length visited) = int N div B * B" using m by simp
  have dis: "distinct visited" unfolding v using bij by (simp add: bijection_on_range_def)
  have sub: "set visited \<subseteq> {0..<int N}"
    using \<open>set visited \<subseteq> set (indices dl)\<close> bij by (simp add: bijection_on_range_def)
  have lb: "int (length (map (gathered ds) ibs)) = int N div B" using l dv by simp
  have len: "DataLoaderJax_len dl = Inr (int N div B)"
    using loader_ok_len [OF ok] d b(2) by simp
  show ?thesis
    by (rule exI [of _ dl], rule exI [of _ "map (gathered ds) ibs"], rule exI [of _ dl'],
        rule exI [of _ visited], intro conjI)
      (fact a e full visited_def g lv dis sub lb len)+
qed

theorem DataLoaderJax_epoch_drop_last_witness:
  "permutation_ok example_random \<and>
   ArrayDataset_init [[10, 20, 30, 40, 50 :: int], [1, 2, 3, 4, 5]] =
     Inr \<lparr>arrays = [[10, 20, 30, 40, 50], [1, 2, 3, 4, 5]]\<rparr> \<and>
   ArrayDataset_len \<lparr>arrays = [[10, 20, 30, 40, 50 :: int], [1, 2, 3, 4, 5]]\<rparr> = Inr 5 \<and>
   (0 :: int) < 2 \<and> (5 :: nat) < 6 \<and>
   DataLoaderJax_init example_random Config_default
     \<lparr>arrays = [[10, 20, 30, 40, 50 :: int], [1, 2, 3, 4, 5]]\<rparr> 2 True True [] =
     Inr \<lparr>dataset = \<lparr>arrays = [[10, 20, 30, 40, 50], [1, 2, 3, 4, 5]]\<rparr>,
          batch_size = 2, shuffle = True, drop_last = True,
          keys = \<lparr>key = 4220, subkeys = []\<rparr>, data_len = 5,
          indices = [4, 3, 2, 1, 0], pose = 0\<rparr> \<and>
   (\<exists>dl batches dl' visited.
     DataLoaderJax_after_epochs example_random Config_default 6 1
       \<lparr>dataset = \<lparr>arrays = [[10, 20, 30, 40, 50 :: int], [1, 2, 3, 4, 5]]\<rparr>,
          batch_size = 2, shuffle = True, drop_last = True,
          keys = \<lparr>key = 4220, subkeys = []\<rparr>, data_len = 5,
          indices = [4, 3, 2, 1, 0], pose = 0\<rparr> = Some dl \<and>
     DataLoaderJax_epoch example_random Config_default 6 dl = Some (batches, StopIteration, dl') \<and>
     (\<forall>batch\<in>set batches. \<forall>col\<in>set batch. int (length col) = 2) \<and>
     visited = take (nat (int 5 div 2 * 2)) (indices dl) \<and>
     ArrayDataset_getitem_batch \<lparr>arrays = [[10, 20, 30, 40, 50 :: int], [1, 2, 3, 4, 5]]\<rparr> visited =
       Inr (concatenate_batches (length [[10, 20, 30, 40, 50 :: int], [1, 2, 3, 4, 5]]) batches) \<and>
     int (length visited) = int 5 div 2 * 2 \<and>
     distinct visited \<and> set visited \<subseteq> {0..<int 5} \<and>
     int (length batches) = int 5 div 2 \<and>
     DataLoaderJax_len dl = Inr (int 5 div 2)) \<and>
   DataLoaderJax_epoch example_random Config_default 6
       \<lparr>dataset = \<lparr>arrays = [[10, 20, 30, 40, 50 :: int], [1, 2, 3, 4, 5]]\<rparr>,
          batch_size = 2, shuffle = True, drop_last = True,
          keys = \<lparr>key = 4220, subkeys = []\<rparr>, data_len = 5,
          indices = [4, 3, 2, 1, 0], pose = 0\<rparr> =
     Some ([[[50, 40], [5, 4]], [[30, 20], [3, 2]]], StopIteration,
       \<lparr>dataset = \<lparr>arrays = [[10, 20, 30, 40, 50], [1, 2, 3, 4, 5]]\<rparr>,
          batch_size = 2, shuffle = True, drop_last = True,
          keys = \<lparr>key = 422020, subkeys = []\<rparr>, data_len = 5,
          indices = [0, 1, 2, 3, 4], pose = 0\<rparr>)"
proof -
  let ?arrs = "[[10, 20, 30, 40, 50 :: int], [1, 2, 3, 4, 5]]"
  let ?dl0 = "\<lparr>dataset = \<lparr>arrays = [[10, 20, 30, 40, 50 :: int], [1, 2, 3, 4, 5]]\<rparr>,
          batch_size = 2, shuffle = True, drop_last = True,
          keys = \<lparr>key = 4220, subkeys = []\<rparr>, data_len = 5,
          indices = [4, 3, 2, 1, 0], pose = 0\<rparr> :: (int, int) DataLoaderJax"
  have p: "permutation_ok example_random"
    by (simp add: permutation_ok_def example_random_def)
  have i: "ArrayDataset_init ?arrs = Inr \<lparr>arrays = ?arrs\<rparr>"
    by (simp add: ArrayDataset_init_def)
  have l: "ArrayDataset_len \<lparr>arrays = ?arrs\<rparr> = Inr 5"
    by (simp add: ArrayDataset_len_def)
  have b: "(0 :: int) < 2" and f: "(5 :: nat) < 6" by simp_all
  have d: "DataLoaderJax_init example_random Config_default \<lparr>arrays = ?arrs\<rparr> 2 True True [] =
      Inr ?dl0"
    by code_simp
  have e: "DataLoaderJax_epoch example_random Config_default 6 ?dl0 =
     Some ([[[50, 40], [5, 4]], [[30, 20], [3, 2]]], StopIteration,
       \<lparr>dataset = \<lparr>arrays = [[10, 20, 30, 40, 50], [1, 2, 3, 4, 5]]\<rparr>,
          batch_size = 2, shuffle = True, drop_last = True,
          keys = \<lparr>key = 422020, subkeys = []\<rparr>, data_len = 5,
          indices = [0, 1, 2, 3, 4], pose = 0\<rparr>)"
    by code_simp
  note c = DataLoaderJax_epoch_drop_last [OF p i l b f d, of 1]
  from p i l d c e show ?thesis by (intro conjI) simp_all
qed

text \<open>
  Claim C9. For a dataset of length \<open>N \<ge> 1\<close> and a batch size \<open>B > N\<close>, an epoch yields
  exactly one batch, which holds all \<open>N\<close> samples (in the order of the epoch's
  permutation), when \<open>drop_last=False\<close>, and no batch at all when \<open>drop_last=True\<close>.
\<close>

theorem DataLoaderJax_epoch_large_batch:
  assumes "permutation_ok J"
    and "ArrayDataset_init arrs = Inr ds" and "ArrayDataset_len ds = Inr N"
    and "1 \<le> N" and "int N < B" and "N < fuel"
    and "DataLoaderJax_init J cfg ds B shuf dlast kwargs = Inr dl0"
  shows "\<exists>dl whole dl'.
     DataLoaderJax_after_epochs J cfg fuel k dl0 = Some dl \<and>
     bijection_on_range N (indices dl) \<and>
     ArrayDataset_getitem_batch ds (indices dl) = Inr whole \<and>
     DataLoaderJax_epoch J cfg fuel dl = Some (if dlast then [] else [whole], StopIteration, dl')"
proof -
  have B: "0 < B" using assms(5) by simp
  from DataLoaderJax_epoch_k [OF assms(1,2,3) B assms(6,7), of k] obtain dl ibs dl' where
    a: "DataLoaderJax_after_epochs J cfg fuel k dl0 = Some dl"
    and e: "DataLoaderJax_epoch J cfg fuel dl = Some (map (gathered ds) ibs, StopIteration, dl')"
    and ok: "loader_ok cfg N (nat B) dl" and d: "dataset dl = ds"
    and c: "concat ibs = (if dlast then take (N div nat B * nat B) (indices dl) else indices dl)"
    and l: "length ibs = (if dlast then N div nat B else (N + nat B - 1) div nat B)"
    by blast
  have b: "0 < N" "N < 0 + nat B" using assms(4,5) by simp_all
  have bij: "bijection_on_range N (indices dl)"
    using ok by (intro mset_arange_bijection) (simp add: loader_ok_def)
  have "ArrayDataset_getitem_batch (dataset dl) (indices dl) = Inr (gathered (dataset dl) (indices dl))"
    by (rule getitem_batch_gathered [OF ok]) simp
  then have g: "ArrayDataset_getitem_batch ds (indices dl) = Inr (gathered ds (indices dl))"
    using d by simp
  have "map (gathered ds) ibs = (if dlast then [] else [gathered ds (indices dl)])"
  proof (cases dlast)
    case True
    have "N div nat B = 0" using b(2) by simp
    with l True show ?thesis by simp
  next
    case False
    have "(N + nat B - 1) div nat B = 1" using div_batches_tail [OF b] by simp
    with l False have "length ibs = 1" by simp
    then obtain x where "ibs = [x]" by (cases ibs) auto
    with c False show ?thesis by simp
  qed
  with e have e': "DataLoaderJax_epoch J cfg fuel dl =
      Some (if dlast then [] else [gathered ds (indices dl)], StopIteration, dl')"
    by simp
  show ?thesis
    by (rule exI [of _ dl], rule exI [of _ "gathered ds (indices dl)"], rule exI [of _ dl'],
        intro conjI) (fact a bij g e')+
qed

theorem DataLoaderJax_epoch_large_batch_witness:
  "permutation_ok example_random \<and>
   ArrayDataset_init [[10, 20, 30, 40, 50 :: int], [1, 2, 3, 4, 5]] =
     Inr \<lparr>arrays = [[10, 20, 30, 40, 50], [1, 2, 3, 4, 5]]\<rparr> \<and>
   ArrayDataset_len \<lparr>arrays = [[10, 20, 30, 40, 50 :: int], [1, 2, 3, 4, 5]]\<rparr> = Inr 5 \<and>
   (1 :: nat) \<le> 5 \<and> int 5 < 7 \<and> (5 :: nat) < 6 \<and>
   DataLoaderJax_init example_random Config_default
     \<lparr>arrays = [[10, 20, 30, 40, 50 :: int], [1, 2, 3, 4, 5]]\<rparr> 7 True False [] =
     Inr \<lparr>dataset = \<lparr>arrays = [[10, 20, 30, 40, 50], [1, 2, 3, 4, 5]]\<rparr>,
          batch_size = 7, shuffle = True, drop_last = False,
          keys = \<lparr>key = 4220, subkeys = []\<rparr>, data_len = 5,
          indices = [4, 3, 2, 1, 0], pose = 0\<rparr> \<and>
   (\<exists>dl whole dl'.
     DataLoaderJax_after_epochs example_random Config_default 6 1
       \<lparr>dataset = \<lparr>arrays = [[10, 20, 30, 40, 50 :: int], [1, 2, 3, 4, 5]]\<rparr>,
          batch_size = 7, shuffle = True, drop_last = False,
          keys = \<lparr>key = 4220, subkeys = []\<rparr>, data_len = 5,
          indices = [4, 3, 2, 1, 0], pose = 0\<rparr> = Some dl \<and>
     bijection_on_range 5 (indices dl) \<and>
     ArrayDataset_getitem_batch \<lparr>arrays = [[10, 20, 30, 40, 50 :: int], [1, 2, 3, 4, 5]]\<rparr> (indices dl) = Inr whole \<and>
     DataLoaderJax_epoch example_random Config_default 6 dl =
       Some (if False then [] else [whole], StopIteration, dl')) \<and>
   DataLoaderJax_epoch example_random Config_default 6
       \<lparr>dataset = \<lparr>arrays = [[10, 20, 30, 40, 50 :: int], [1, 2, 3, 4, 5]]\<rparr>,
          batch_size = 7, shuffle = True, drop_last = False,
          keys = \<lparr>key = 4220, subkeys = []\<rparr>, data_len = 5,
          indices = [4, 3, 2, 1, 0], pose = 0\<rparr> =
     Some ([[[50, 40, 30, 20, 10], [5, 4, 3, 2, 1]]], StopIteration,
       \<lparr>dataset = \<lparr>arrays = [[10, 20, 30, 40, 50], [1, 2, 3, 4, 5]]\<rparr>,
          batch_size = 7, shuffle = True, drop_last = False,
          keys = \<lparr>key = 422020, subkeys = []\<rparr>, data_len = 5,
          indices = [0, 1, 2, 3, 4], pose = 0\<rparr>) \<and>
   DataLoaderJax_epoch example_random Config_default 6
       \<lparr>dataset = \<lparr>arrays = [[10, 20, 30, 40, 50 :: int], [1, 2, 3, 4, 5]]\<rparr>,
          batch_size = 7, shuffle = True, drop_last = True,
          keys = \<lparr>key = 4220, subkeys = []\<rparr>, data_len = 5,
          indices = [4, 3, 2, 1, 0], pose = 0\<rparr> =
     Some ([], StopIteration,
       \<lparr>dataset = \<lparr>arrays = [[10, 20, 30, 40, 50], [1, 2, 3, 4, 5]]\<rparr>,
          batch_size = 7, shuffle = True, drop_last = True,
          keys = \<lparr>key = 422020, subkeys = []\<rparr>, data_len = 5,
          indices = [0, 1, 2, 3, 4], pose = 0\<rparr>)"
proof -
  let ?arrs = "[[10, 20, 30, 40, 50 :: int], [1, 2, 3, 4, 5]]"
  let ?dl0 = "\<lparr>dataset = \<lparr>arrays = [[10, 20, 30, 40, 50 :: int], [1, 2, 3, 4, 5]]\<rparr>,
          batch_size = 7, shuffle = True, drop_last = False,
          keys = \<lparr>key = 4220, subkeys = []\<rparr>, data_len = 5,
          indices = [4, 3, 2, 1, 0], pose = 0\<rparr> :: (int, int) DataLoaderJax"
  have p: "permutation_ok example_random"
    by (simp add: permutation_ok_def example_random_def)
  have i: "ArrayDataset_init ?arrs = Inr \<lparr>arrays = ?arrs\<rparr>"
    by (simp add: ArrayDataset_init_def)
  have l: "ArrayDataset_len \<lparr>arrays = ?arrs\<rparr> = Inr 5"
    by (simp add: ArrayDataset_len_def)
  have b: "(1 :: nat) \<le> 5" and b2: "int 5 < 7" and f: "(5 :: nat) < 6" by simp_all
  have d: "DataLoaderJax_init example_random Config_default \<lparr>arrays = ?arrs\<rparr> 7 True False [] =
      Inr ?dl0"
    by code_simp
  have e: "DataLoaderJax_epoch example_random Config_default 6 ?dl0 =
     Some ([[[50, 40, 30, 20, 10], [5, 4, 3, 2, 1]]], StopIteration,
       \<lparr>dataset = \<lparr>arrays = [[10, 20, 30, 40, 50], [1, 2, 3, 4, 5]]\<rparr>,
          batch_size = 7, shuffle = True, drop_last = False,
          keys = \<lparr>key = 422020, subkeys = []\<rparr>, data_len = 5,
          indices = [0, 1, 2, 3, 4], pose = 0\<rparr>)"
    by code_simp
  have e2: "DataLoaderJax_epoch example_random Config_default 6
       \<lparr>dataset = \<lparr>arrays = [[10, 20, 30, 40, 50 :: int], [1, 2, 3, 4, 5]]\<rparr>,
          batch_size = 7, shuffle = True, drop_last = True,
          keys = \<lparr>key = 4220, subkeys = []\<rparr>, data_len = 5,
          indices = [4, 3, 2, 1, 0], pose = 0\<rparr> =
     Some ([], StopIteration,
       \<lparr>dataset = \<lparr>arrays = [[10, 20, 30, 40, 50], [1, 2, 3, 4, 5]]\<rparr>,
          batch_size = 7, shuffle = True, drop_last = True,
          keys = \<lparr>key = 422020, subkeys = []\<rparr>, data_len = 5,
          indices = [0, 1, 2, 3, 4], pose = 0\<rparr>)"
    by code_simp
  note c = DataLoaderJax_epoch_large_batch [OF p i l b b2 f d, of 1]
  from p i l d c e e2 show ?thesis by (intro conjI) simp_all
qed

subsection \<open>A run on 11 samples\<close>

text \<open>
  A dataset of 11 samples with batch size 10, without shuffling: with \<open>drop_last=False\<close>
  an epoch yields a batch of 10 and a batch of 1 and \<open>__len__\<close> is 2; with
  \<open>drop_last=True\<close> it yields the batch of 10 only and \<open>__len__\<close> is 1.
\<close>

lemma DataLoaderJax_epoch_11_samples:
  "DataLoaderJax_init example_random Config_default
     \<lparr>arrays = [[100, 101, 102, 103, 104, 105, 106, 107, 108, 109, 110 :: int]]\<rparr> 10 False False [] =
     Inr \<lparr>dataset = \<lparr>arrays = [[100, 101, 102, 103, 104, 105, 106, 107, 108, 109, 110]]\<rparr>,
        batch_size = 10, shuffle = False, drop_last = False,
        keys = \<lparr>key = 42, subkeys = []\<rparr>, data_len = 11,
        indices = [0, 1, 2, 3, 4, 5, 6, 7, 8, 9, 10], pose = 0\<rparr>"
  "DataLoaderJax_epoch example_random Config_default 12
     \<lparr>dataset = \<lparr>arrays = [[100, 101, 102, 103, 104, 105, 106, 107, 108, 109, 110 :: int]]\<rparr>,
        batch_size = 10, shuffle = False, drop_last = False,
        keys = \<lparr>key = 42, subkeys = []\<rparr>, data_len = 11,
        indices = [0, 1, 2, 3, 4, 5, 6, 7, 8, 9, 10], pose = 0\<rparr> =
     Some ([[[100, 101, 102, 103, 104, 105, 106, 107, 108, 109]], [[110]]], StopIteration,
       \<lparr>dataset = \<lparr>arrays = [[100, 101, 102, 103, 104, 105, 106, 107, 108, 109, 110]]\<rparr>,
        batch_size = 10, shuffle = False, drop_last = False,
        keys = \<lparr>key = 42, subkeys = []\<rparr>, data_len = 11,
        indices = [0, 1, 2, 3, 4, 5, 6, 7, 8, 9, 10], pose = 0\<rparr>)"
  "DataLoaderJax_len
     \<lparr>dataset = \<lparr>arrays = [[100, 101, 102, 103, 104, 105, 106, 107, 108, 109, 110 :: int]]\<rparr>,
        batch_size = 10, shuffle = False, drop_last = False,
        keys = \<lparr>key = 42 :: int, subkeys = []\<rparr>, data_len = 11,
        indices = [0, 1, 2, 3, 4, 5, 6, 7, 8, 9, 10], pose = 0\<rparr> = Inr 2"
  "DataLoaderJax_epoch example_random Config_default 12
     \<lparr>dataset = \<lparr>arrays = [[100, 101, 102, 103, 104, 105, 106, 107, 108, 109, 110 :: int]]\<rparr>,
        batch_size = 10, shuffle = False, drop_last = True,
        keys = \<lparr>key = 42, subkeys = []\<rparr>, data_len = 11,
        indices = [0, 1, 2, 3, 4, 5, 6, 7, 8, 9, 10], pose = 0\<rparr> =
     Some ([[[100, 101, 102, 103, 104, 105, 106, 107, 108, 109]]], StopIteration,
       \<lparr>dataset = \<lparr>arrays = [[100, 101, 102, 103, 104, 105, 106, 107, 108, 109, 110]]\<rparr>,
        batch_size = 10, shuffle = False, drop_last = True,
        keys = \<lparr>key = 42, subkeys = []\<rparr>, data_len = 11,
        indices = [0, 1, 2, 3, 4, 5, 6, 7, 8, 9, 10], pose = 0\<rparr>)"
  "DataLoaderJax_len
     \<lparr>dataset = \<lparr>arrays = [[100, 101, 102, 103, 104, 105, 106, 107, 108, 109, 110 :: int]]\<rparr>,
        batch_size = 10, shuffle = False, drop_last = True,
        keys = \<lparr>key = 42 :: int, subkeys = []\<rparr>, data_len = 11,
        indices = [0, 1, 2, 3, 4, 5, 6, 7, 8, 9, 10], pose = 0\<rparr> = Inr 1"
  by code_simp+

section \<open>The seed of an iterator\<close>

lemma DataLoaderJax_init_kwargs:
  "DataLoaderJax_init J cfg ds bsize shuf dlast kwargs =
   DataLoaderJax_init J cfg ds bsize shuf dlast kwargs'"
  by (simp add: DataLoaderJax_init_def)

lemma DataLoaderJax_init_keys:
  assumes "DataLoaderJax_init J cfg ds bsize True dlast kwargs = Inr dl"
  shows "\<exists>k. PRNGSequence_next J cfg (PRNGSequence_init J (global_seed cfg)) = Inr (k, keys dl) \<and>
           indices dl = random_permutation J k (arange (nat (data_len dl)))"
proof -
  from assms obtain N where n: "ArrayDataset_len ds = Inr N"
    by (cases "ArrayDataset_len ds") (simp_all add: DataLoaderJax_init_def)
  let ?d = "\<lparr>dataset = ds, batch_size = bsize, shuffle = True, drop_last = dlast,
             keys = PRNGSequence_init J (global_seed cfg),
             data_len = int N, indices = arange N, pose = 0\<rparr>"
  from assms n have s: "DataLoaderJax_shuffle J cfg ?d = Inr dl"
    by (simp add: DataLoaderJax_init_def)
  then obtain k ks where
    k: "PRNGSequence_next J cfg (PRNGSequence_init J (global_seed cfg)) = Inr (k, ks)"
    by (cases "PRNGSequence_next J cfg (PRNGSequence_init J (global_seed cfg))")
      (auto simp: DataLoaderJax_shuffle_def)
  with s have "dl = ?d\<lparr>keys := ks, indices := random_permutation J k (arange N)\<rparr>"
    by (simp add: DataLoaderJax_shuffle_def)
  then have "keys dl = ks" "indices dl = random_permutation J k (arange (nat (data_len dl)))"
    by simp_all
  with k show ?thesis by simp
qed

text \<open>
  Claim C10. Every \<open>DataLoaderJax\<close> seeds its key sequence from the one configuration
  constant \<open>global_seed\<close> (42 by default), and no argument of the constructor changes
  that: the keyword arguments are not read. So two iterators constructed under the same
  configuration with \<open>shuffle=True\<close> draw the same first key of the same key sequence,
  whatever their datasets and batch policies, and their first permutations are made
  with that key; with the same dataset and policy they are in the same state, so that
  every later call returns the same batch and leaves the same permutation and keys.
\<close>

theorem DataLoaderJax_global_seed:
  assumes "DataLoaderJax_init J cfg ds1 B1 True dlast1 kwargs1 = Inr a"
    and "DataLoaderJax_init J cfg ds2 B2 True dlast2 kwargs2 = Inr b"
  shows "global_seed Config_default = 42 \<and>
    (\<exists>k. PRNGSequence_next J cfg (PRNGSequence_init J (global_seed cfg)) = Inr (k, keys a) \<and>
       keys b = keys a \<and>
       indices a = random_permutation J k (arange (nat (data_len a))) \<and>
       indices b = random_permutation J k (arange (nat (data_len b)))) \<and>
    (ds1 = ds2 \<and> B1 = B2 \<and> dlast1 = dlast2 \<longrightarrow>
       a = b \<and>
       (\<forall>n. DataLoaderJax_next J cfg (DataLoaderJax_calls J cfg n a) =
            DataLoaderJax_next J cfg (DataLoaderJax_calls J cfg n b)))"
proof -
  from DataLoaderJax_init_keys [OF assms(1)] obtain k where
    ka: "PRNGSequence_next J cfg (PRNGSequence_init J (global_seed cfg)) = Inr (k, keys a)"
    and ia: "indices a = random_permutation J k (arange (nat (data_len a)))"
    by blast
  from DataLoaderJax_init_keys [OF assms(2)] obtain k' where
    kb: "PRNGSequence_next J cfg (PRNGSequence_init J (global_seed cfg)) = Inr (k', keys b)"
    and ib: "indices b = random_permutation J k' (arange (nat (data_len b)))"
    by blast
  from ka kb have same: "k' = k" "keys b = keys a" by simp_all
  have seed: "global_seed Config_default = 42" by (simp add: Config_default_def)
  have eq: "a = b" if "ds1 = ds2 \<and> B1 = B2 \<and> dlast1 = dlast2"
    using assms that DataLoaderJax_init_kwargs [of J cfg ds1 B1 True dlast1 kwargs1 kwargs2]
    by simp
  from seed ka same ia ib eq show ?thesis by auto
qed

theorem DataLoaderJax_global_seed_witness:
  "DataLoaderJax_init example_random Config_default \<lparr>arrays = [[10, 20, 30 :: int]]\<rparr>
     2 True False [(''seed'', 7)] =
     Inr \<lparr>dataset = \<lparr>arrays = [[10, 20, 30]]\<rparr>, batch_size = 2, shuffle = True,
          drop_last = False, keys = \<lparr>key = 4220, subkeys = []\<rparr>, data_len = 3,
          indices = [2, 1, 0], pose = 0\<rparr> \<and>
   DataLoaderJax_init example_random Config_default \<lparr>arrays = [[10, 20, 30 :: int]]\<rparr>
     2 True False [] =
     Inr \<lparr>dataset = \<lparr>arrays = [[10, 20, 30]]\<rparr>, batch_size = 2, shuffle = True,
          drop_last = False, keys = \<lparr>key = 4220, subkeys = []\<rparr>, data_len = 3,
          indices = [2, 1, 0], pose = 0\<rparr> \<and>
   global_seed Config_default = 42 \<and>
   (\<exists>k. PRNGSequence_next example_random Config_default
          (PRNGSequence_init example_random (global_seed Config_default)) =
          Inr (k, \<lparr>key = 4220, subkeys = []\<rparr>) \<and>
        [2, 1, 0] = random_permutation example_random k (arange 3))"
proof -
  let ?dl = "\<lparr>dataset = \<lparr>arrays = [[10, 20, 30 :: int]]\<rparr>, batch_size = 2, shuffle = True,
          drop_last = False, keys = \<lparr>key = 4220 :: int, subkeys = []\<rparr>, data_len = 3,
          indices = [2, 1, 0], pose = 0\<rparr>"
  have a: "DataLoaderJax_init example_random Config_default \<lparr>arrays = [[10, 20, 30 :: int]]\<rparr>
     2 True False [(''seed'', 7)] = Inr ?dl"
    by code_simp
  have b: "DataLoaderJax_init example_random Config_default \<lparr>arrays = [[10, 20, 30 :: int]]\<rparr>
     2 True False [] = Inr ?dl"
    by code_simp
  from DataLoaderJax_global_seed [OF a b] a b show ?thesis
    by auto
qed

end
